theory Spec2Isabelle
  imports Main "HOL-Library.Multiset"
begin

section \<open>Schema Viewer: data model\<close>

text \<open>
  The Schema Viewer keeps one mutable \<open>state\<close> object (modules/state.js). Every function
  of the source that reads or writes it is modelled as a function from state to state.
  Strings are lists of 8-bit characters; identifiers are compared by equality exactly as
  the source's \<open>===\<close> does.
\<close>

subsection \<open>Relations, links and nodes\<close>

datatype relType = composition | association

text \<open>A relation object as pushed by \<open>extractRelations\<close>; \<open>via\<close> is absent on compositions.\<close>

record relation =
  r_type :: relType
  r_target :: string
  r_property :: string
  r_isArray :: bool
  r_via :: "string option"
  r_description :: string

text \<open>A displayed link as pushed onto \<open>state.displayedLinks\<close>.\<close>

record link =
  l_id :: string
  l_source :: string
  l_target :: string
  l_type :: relType
  l_property :: string
  l_isArray :: bool
  l_via :: "string option"

text \<open>
  A property definition of the schema document, with the fields the parser reads:
  \<open>$ref\<close>, \<open>items\<close> (with its own \<open>$ref\<close>, \<open>x-association-target\<close> and
  \<open>description\<close>), \<open>x-association-target\<close> and \<open>description\<close>. An absent field is
  \<open>None\<close>.
\<close>

record items =
  i_ref :: "string option"
  i_assoc :: "string list option"
  i_description :: "string option"

record propDef =
  p_ref :: "string option"
  p_items :: "items option"
  p_assoc :: "string list option"
  p_description :: "string option"

text \<open>
  A parsed node. The fields \<open>title\<close>, \<open>required\<close>, \<open>recommended\<close>, \<open>examples\<close>,
  \<open>xProperties\<close> and \<open>rawSchema\<close> of the source are copies of the input that no
  modelled function reads; they are left out.
\<close>

record node =
  n_id :: string
  n_name :: string
  n_type :: string
  n_umsType :: string
  n_description :: string
  n_properties :: "(string \<times> propDef) list"
  n_relations :: "relation list"

subsection \<open>The JavaScript Map and Set\<close>

text \<open>
  A \<open>Map\<close> is an association list in insertion order: \<open>get\<close> is \<open>map_of\<close>,
  \<open>set\<close> overwrites in place or appends, iteration walks the list. A \<open>Set\<close> is a
  list without repetition in insertion order.
\<close>

definition map_has :: "(string \<times> 'v) list \<Rightarrow> string \<Rightarrow> bool" where
  "map_has m k = (map_of m k \<noteq> None)"

fun map_set :: "string \<Rightarrow> 'v \<Rightarrow> (string \<times> 'v) list \<Rightarrow> (string \<times> 'v) list" where
  "map_set k v [] = [(k, v)]"
| "map_set k v (p # ps) = (if fst p = k then (k, v) # ps else p # map_set k v ps)"

definition set_has :: "string list \<Rightarrow> string \<Rightarrow> bool" where
  "set_has xs x = (x \<in> set xs)"

definition set_add :: "string \<Rightarrow> string list \<Rightarrow> string list" where
  "set_add x xs = (if x \<in> set xs then xs else xs @ [x])"

subsection \<open>The state object\<close>

text \<open>
  What the sidebar pane shows. The HTML produced by \<open>renderNodeDetails\<close> and
  \<open>renderLinkDetails\<close> is abstracted to the object it was rendered from;
  \<open>ErrorState\<close> is the panel written when loading fails.
\<close>

datatype content = EmptyState | NodeDetails node | LinkDetails link | ErrorState

text \<open>
  The part of the page outside \<open>state\<close> that the selection functions write: the query
  parameters of the URL, the sidebar, and which graph elements carry the class
  \<open>selected\<close>.
\<close>

record view =
  urlParams :: "(string \<times> string) list"
  sidebarCollapsed :: bool
  sidebarTitle :: string
  sidebarContent :: content
  markedNode :: "string option"
  markedLink :: "string option"

record state =
  nodes :: "(string \<times> node) list"
  displayedNodes :: "string list"
  displayedLinks :: "link list"
  selectedNode :: "string option"
  selectedLink :: "string option"
  currentSchemaName :: string
  page :: view

section \<open>utils.js\<close>

text \<open>
  \<open>updateURL(params)\<close>: \<open>params\<close> is an object whose values are strings or
  \<open>null\<close>. A value is truthy when it is a non-empty string. The query of the URL
  is a list of parameters; \<open>get\<close> reads the first of a name, \<open>delete\<close> removes
  all of a name.
\<close>

definition truthy :: "string option \<Rightarrow> bool" where
  "truthy v = (case v of None \<Rightarrow> False | Some x \<Rightarrow> x \<noteq> [])"

definition param_delete :: "string \<Rightarrow> (string \<times> string) list \<Rightarrow> (string \<times> string) list" where
  "param_delete k ps = filter (\<lambda>p. fst p \<noteq> k) ps"

text \<open>
  \<open>searchParams.set\<close> overwrites the first parameter of that name and removes the
  others, or appends.
\<close>

fun param_set :: "string \<Rightarrow> string \<Rightarrow> (string \<times> string) list \<Rightarrow> (string \<times> string) list" where
  "param_set k v [] = [(k, v)]"
| "param_set k v (p # ps) =
     (if fst p = k then (k, v) # param_delete k ps else p # param_set k v ps)"

fun param_entries :: "(string \<times> string option) list \<Rightarrow> (string \<times> string) list \<Rightarrow> (string \<times> string) list" where
  "param_entries [] url = url"
| "param_entries ((key, val) # rest) url =
     param_entries rest
       (case val of None \<Rightarrow> param_delete key url | Some v \<Rightarrow> param_set key v url)"

definition updateURL :: "(string \<times> string option) list \<Rightarrow> (string \<times> string) list \<Rightarrow> (string \<times> string) list" where
  "updateURL params url =
     (let u1 = (if truthy (case map_of params ''node'' of None \<Rightarrow> None | Some v \<Rightarrow> v)
                then param_delete ''link'' url else url);
          u2 = (if truthy (case map_of params ''link'' of None \<Rightarrow> None | Some v \<Rightarrow> v)
                then param_delete ''node'' u1 else u1);
          u3 = (if params = [] then param_delete ''link'' (param_delete ''node'' u2) else u2)
      in param_entries params u3)"

section \<open>sidebar.js: selection\<close>

definition selectNode :: "string \<Rightarrow> state \<Rightarrow> state" where
  "selectNode nodeId s =
     (let s1 = s\<lparr>selectedNode := Some nodeId, selectedLink := None\<rparr> in
      case map_of (nodes s1) nodeId of
        None \<Rightarrow> s1
      | Some node \<Rightarrow>
          s1\<lparr>page := (page s1)
            \<lparr>urlParams := updateURL [(''node'', Some nodeId)] (urlParams (page s1)),
             markedNode := Some nodeId,
             markedLink := None,
             sidebarCollapsed := False,
             sidebarTitle := n_name node,
             sidebarContent := NodeDetails node\<rparr>\<rparr>)"

definition selectLink :: "string \<Rightarrow> state \<Rightarrow> state" where
  "selectLink linkId s =
     (let s1 = s\<lparr>selectedLink := Some linkId, selectedNode := None\<rparr> in
      case find (\<lambda>l. l_id l = linkId) (displayedLinks s1) of
        None \<Rightarrow> s1
      | Some link \<Rightarrow>
          s1\<lparr>page := (page s1)
            \<lparr>markedNode := None,
             markedLink := Some linkId,
             urlParams := updateURL [(''link'', Some linkId)] (urlParams (page s1)),
             sidebarCollapsed := False,
             sidebarTitle := ''Relation: '' @ l_property link,
             sidebarContent := LinkDetails link\<rparr>\<rparr>)"

text \<open>A sequence of calls to the two selection entry points.\<close>

datatype selectCall = SelectNode string | SelectLink string

fun selectStep :: "state \<Rightarrow> selectCall \<Rightarrow> state" where
  "selectStep s (SelectNode nodeId) = selectNode nodeId s"
| "selectStep s (SelectLink linkId) = selectLink linkId s"

definition selectCalls :: "selectCall list \<Rightarrow> state \<Rightarrow> state" where
  "selectCalls calls s = foldl selectStep s calls"

section \<open>Strings\<close>

text \<open>
  The string operations of JavaScript that the source uses, on ASCII text:
  \<open>toLowerCase\<close>, \<open>toUpperCase\<close>, \<open>startsWith\<close>, \<open>includes\<close>, \<open>split\<close>,
  \<open>trim\<close> and the character class \<open>\w\<close> of regular expressions. JavaScript's case
  mappings also change letters outside ASCII; \<open>toLowerCase\<close> and \<open>toUpperCase\<close> below
  agree with them on plain text only (\<open>isPlain\<close>: the printable ASCII characters), and
  what is proved about the search is proved for plain text.
\<close>

definition isPlain :: "string \<Rightarrow> bool" where
  "isPlain s = list_all (\<lambda>c. 32 \<le> (of_char c :: nat) \<and> (of_char c :: nat) \<le> 126) s"

definition upperChars :: string where
  "upperChars = ''ABCDEFGHIJKLMNOPQRSTUVWXYZ''"

definition lowerChars :: string where
  "lowerChars = ''abcdefghijklmnopqrstuvwxyz''"

definition digitChars :: string where
  "digitChars = ''0123456789''"

definition toLowerChar :: "char \<Rightarrow> char" where
  "toLowerChar c = (case map_of (zip upperChars lowerChars) c of None \<Rightarrow> c | Some d \<Rightarrow> d)"

definition toUpperChar :: "char \<Rightarrow> char" where
  "toUpperChar c = (case map_of (zip lowerChars upperChars) c of None \<Rightarrow> c | Some d \<Rightarrow> d)"

definition toLowerCase :: "string \<Rightarrow> string" where
  "toLowerCase s = map toLowerChar s"

definition startsWith :: "string \<Rightarrow> string \<Rightarrow> bool" where
  "startsWith s q = (take (length q) s = q)"

fun includes_str :: "string \<Rightarrow> string \<Rightarrow> bool" where
  "includes_str [] q = (q = [])"
| "includes_str (c # cs) q = (startsWith (c # cs) q \<or> includes_str cs q)"

fun split_str :: "char \<Rightarrow> string \<Rightarrow> string list" where
  "split_str sep [] = [[]]"
| "split_str sep (c # cs) =
     (if c = sep then [] # split_str sep cs
      else (case split_str sep cs of [] \<Rightarrow> [[c]] | p # ps \<Rightarrow> (c # p) # ps))"

fun join_str :: "string \<Rightarrow> string list \<Rightarrow> string" where
  "join_str sep [] = []"
| "join_str sep [p] = p"
| "join_str sep (p # q # ps) = p @ sep @ join_str sep (q # ps)"

definition isSpace :: "char \<Rightarrow> bool" where
  "isSpace c = (c \<in> set [CHR 0x09, CHR 0x0A, CHR 0x0B, CHR 0x0C, CHR 0x0D, CHR '' ''])"

definition trim :: "string \<Rightarrow> string" where
  "trim s = rev (dropWhile isSpace (rev (dropWhile isSpace s)))"

definition isWordChar :: "char \<Rightarrow> bool" where
  "isWordChar c = (c \<in> set (upperChars @ lowerChars @ digitChars @ ''_''))"

text \<open>
  \<open>formatName\<close> (utils.js): a space before every capital letter, the first character in
  upper case, then \<open>trim\<close>.
\<close>

definition formatName :: "string \<Rightarrow> string" where
  "formatName name =
     (let spaced = concat (map (\<lambda>c. if c \<in> set upperChars then [CHR '' '', c] else [c]) name);
          capital = (case spaced of [] \<Rightarrow> [] | c # cs \<Rightarrow> toUpperChar c # cs)
      in trim capital)"

section \<open>parser.js\<close>

text \<open>
  The schema document, typed by the fields \<open>parseSchema\<close> reads. Objects are lists of
  entries in the order of \<open>Object.entries\<close>, with pairwise different keys.
\<close>

record schemaDef =
  d_type :: "string option"
  d_umsType :: "string option"
  d_description :: "string option"
  d_properties :: "(string \<times> propDef) list option"

record schema =
  s_title :: "string option"
  s_umsType :: "string option"
  s_description :: "string option"
  s_properties :: "(string \<times> propDef) list option"
  s_definitions :: "(string \<times> schemaDef) list option"

text \<open>\<open>v || d\<close> on an optional string: the value when it is present and not empty.\<close>

definition orElse :: "string option \<Rightarrow> string \<Rightarrow> string" where
  "orElse v d = (case v of None \<Rightarrow> d | Some x \<Rightarrow> if x = [] then d else x)"

text \<open>
  \<open>ref.match(/#\/definitions\/(\w+)/)\<close>: the leftmost place where \<open>#/definitions/\<close>
  is followed by a word character, and the longest run of word characters from there.
  \<open>extractAssociationTarget\<close> has the same body.
\<close>

fun extractRefTarget :: "string \<Rightarrow> string option" where
  "extractRefTarget [] = None"
| "extractRefTarget (c # cs) =
     (if startsWith (c # cs) ''#/definitions/''
         \<and> takeWhile isWordChar (drop 14 (c # cs)) \<noteq> []
      then Some (takeWhile isWordChar (drop 14 (c # cs)))
      else extractRefTarget cs)"

definition extractAssociationTarget :: "string \<Rightarrow> string option" where
  "extractAssociationTarget target = extractRefTarget target"

definition mapUmsType :: "string \<Rightarrow> string \<Rightarrow> bool \<Rightarrow> string" where
  "mapUmsType type ident isRoot =
     (if isRoot \<and> type = [] then ''root''
      else if type = ''embedded'' \<or> type = ''custom'' then ''subentity''
      else if type = ''ignore'' then
        (if startsWith ident ''System'' then ''external_ownership'' else ''ephemeral'')
      else if type = [] then ''root'' else type)"

text \<open>\<open>target && allNodes.has(target)\<close>\<close>

definition targetKnown :: "string option \<Rightarrow> (string \<times> node) list \<Rightarrow> bool" where
  "targetKnown target allNodes =
     (case target of None \<Rightarrow> False | Some t \<Rightarrow> t \<noteq> [] \<and> map_has allNodes t)"

text \<open>
  The relations pushed for the targets of one \<open>x-association-target\<close> array, in order.
\<close>

fun assocRelations ::
  "string \<Rightarrow> bool \<Rightarrow> string \<Rightarrow> (string \<times> node) list \<Rightarrow> string list \<Rightarrow> relation list" where
  "assocRelations propName isArr descr allNodes [] = []"
| "assocRelations propName isArr descr allNodes (assocTarget # rest) =
     (case extractAssociationTarget assocTarget of
        None \<Rightarrow> assocRelations propName isArr descr allNodes rest
      | Some target \<Rightarrow>
          if targetKnown (Some target) allNodes then
            \<lparr>r_type = association, r_target = target, r_property = propName,
             r_isArray = isArr, r_via = Some assocTarget, r_description = descr\<rparr>
            # assocRelations propName isArr descr allNodes rest
          else assocRelations propName isArr descr allNodes rest)"

text \<open>The body of the loop of \<open>extractRelations\<close>: what one property pushes.\<close>

definition propertyRelations ::
  "string \<Rightarrow> propDef \<Rightarrow> (string \<times> node) list \<Rightarrow> relation list" where
  "propertyRelations propName propDef allNodes =
     (let direct =
            (if truthy (p_ref propDef) then
               (case extractRefTarget (orElse (p_ref propDef) []) of
                  None \<Rightarrow> []
                | Some target \<Rightarrow>
                    if targetKnown (Some target) allNodes then
                      [\<lparr>r_type = composition, r_target = target, r_property = propName,
                        r_isArray = False, r_via = None,
                        r_description = orElse (p_description propDef) []\<rparr>]
                    else [])
             else []);
          itemsRef = (case p_items propDef of None \<Rightarrow> None | Some it \<Rightarrow> i_ref it);
          arrayRef =
            (if truthy itemsRef then
               (case extractRefTarget (orElse itemsRef []) of
                  None \<Rightarrow> []
                | Some target \<Rightarrow>
                    if targetKnown (Some target) allNodes then
                      [\<lparr>r_type = composition, r_target = target, r_property = propName,
                        r_isArray = True, r_via = None,
                        r_description = orElse (p_description propDef) []\<rparr>]
                    else [])
             else []);
          assoc =
            (case p_assoc propDef of
               None \<Rightarrow> []
             | Some targets \<Rightarrow>
                 assocRelations propName False (orElse (p_description propDef) []) allNodes targets);
          itemsAssoc = (case p_items propDef of None \<Rightarrow> None | Some it \<Rightarrow> i_assoc it);
          itemsDescription = (case p_items propDef of None \<Rightarrow> None | Some it \<Rightarrow> i_description it);
          arrayAssoc =
            (case itemsAssoc of
               None \<Rightarrow> []
             | Some targets \<Rightarrow>
                 assocRelations propName True
                   (orElse itemsDescription (orElse (p_description propDef) [])) allNodes targets)
      in direct @ arrayRef @ assoc @ arrayAssoc)"

text \<open>
  \<open>extractRelations(sourceNode, properties, allNodes)\<close> pushes onto
  \<open>sourceNode.relations\<close>; the model returns the array after the pushes.
\<close>

fun extractRelations ::
  "relation list \<Rightarrow> (string \<times> propDef) list \<Rightarrow> (string \<times> node) list \<Rightarrow> relation list" where
  "extractRelations relations [] allNodes = relations"
| "extractRelations relations ((propName, propDef) # rest) allNodes =
     extractRelations (relations @ propertyRelations propName propDef allNodes) rest allNodes"

definition rootNodeOf :: "schema \<Rightarrow> string \<Rightarrow> node" where
  "rootNodeOf schema schemaName =
     \<lparr>n_id = schemaName,
      n_name = orElse (s_title schema) (''ORD '' @ schemaName),
      n_type = ''root'',
      n_umsType = mapUmsType (orElse (s_umsType schema) ''root'') schemaName True,
      n_description = orElse (s_description schema) [],
      n_properties = (case s_properties schema of None \<Rightarrow> [] | Some ps \<Rightarrow> ps),
      n_relations = []\<rparr>"

definition definitionNode :: "string \<Rightarrow> schemaDef \<Rightarrow> node" where
  "definitionNode name def =
     \<lparr>n_id = name,
      n_name = formatName name,
      n_type = orElse (d_type def) ''object'',
      n_umsType = mapUmsType (orElse (d_umsType def) ''default'') name False,
      n_description = orElse (d_description def) [],
      n_properties = (case d_properties def of None \<Rightarrow> [] | Some ps \<Rightarrow> ps),
      n_relations = []\<rparr>"

text \<open>The loop \<open>for (const [name, def] of Object.entries(definitions)) nodes.set(name, node)\<close>.\<close>

fun addDefinitions ::
  "(string \<times> schemaDef) list \<Rightarrow> (string \<times> node) list \<Rightarrow> (string \<times> node) list" where
  "addDefinitions [] allNodes = allNodes"
| "addDefinitions ((name, def) # rest) allNodes =
     addDefinitions rest (map_set name (definitionNode name def) allNodes)"

text \<open>
  The last loop of \<open>parseSchema\<close>: every entry of the map other than the root gets the
  relations of its definition's properties, when the definition has \<open>properties\<close>.
\<close>

definition relateDefinition ::
  "(string \<times> schemaDef) list \<Rightarrow> string \<Rightarrow> (string \<times> node) list \<Rightarrow> string \<times> node \<Rightarrow> string \<times> node" where
  "relateDefinition definitions rootId allNodes entry =
     (if fst entry \<noteq> rootId then
        (case map_of definitions (fst entry) of
           None \<Rightarrow> entry
         | Some def \<Rightarrow>
             (case d_properties def of
                None \<Rightarrow> entry
              | Some props \<Rightarrow>
                  (fst entry,
                   (snd entry)\<lparr>n_relations :=
                     extractRelations (n_relations (snd entry)) props allNodes\<rparr>)))
      else entry)"

text \<open>
  \<open>parseSchema\<close>. The root object is stored first; a definition with the root's name
  replaces it in the map, and then the relations extracted for the root object are pushed
  onto an object the map no longer holds.
\<close>

definition parseSchema :: "schema \<Rightarrow> string \<Rightarrow> (string \<times> node) list" where
  "parseSchema schema schemaName =
     (let definitions = (case s_definitions schema of None \<Rightarrow> [] | Some ds \<Rightarrow> ds);
          rootId = schemaName;
          rootNode = rootNodeOf schema schemaName;
          nodes1 = addDefinitions definitions (map_set rootId rootNode []);
          rootRelations =
            extractRelations [] (case s_properties schema of None \<Rightarrow> [] | Some ps \<Rightarrow> ps) nodes1;
          nodes2 =
            (if rootId \<in> set (map fst definitions) then nodes1
             else map_set rootId (rootNode\<lparr>n_relations := rootRelations\<rparr>) nodes1)
      in map (relateDefinition definitions rootId nodes2) nodes2)"

section \<open>graph.js\<close>

text \<open>The composite id \<open>`${source}-${target}-${property}`\<close> of a link.\<close>

definition compositeId :: "string \<Rightarrow> string \<Rightarrow> string \<Rightarrow> string" where
  "compositeId source target property = source @ ''-'' @ target @ ''-'' @ property"

text \<open>The object literal pushed for a relation of the node \<open>sourceId\<close>.\<close>

definition relationLink :: "string \<Rightarrow> relation \<Rightarrow> link" where
  "relationLink sourceId relation =
     \<lparr>l_id = compositeId sourceId (r_target relation) (r_property relation),
      l_source = sourceId,
      l_target = r_target relation,
      l_type = r_type relation,
      l_property = r_property relation,
      l_isArray = r_isArray relation,
      l_via = r_via relation\<rparr>"

definition pushLink :: "link \<Rightarrow> state \<Rightarrow> state" where
  "pushLink l s = s\<lparr>displayedLinks := displayedLinks s @ [l]\<rparr>"

definition addDisplayed :: "string \<Rightarrow> state \<Rightarrow> state" where
  "addDisplayed nodeId s = s\<lparr>displayedNodes := set_add nodeId (displayedNodes s)\<rparr>"

text \<open>
  The three fields by which \<open>expandNode\<close> recognises an existing link, and its
  check: the link of the relation is pushed when no displayed link has the same source,
  target and property.
\<close>

definition linkKey :: "link \<Rightarrow> string \<times> string \<times> string" where
  "linkKey l = (l_source l, l_target l, l_property l)"

definition ensureLink :: "string \<Rightarrow> relation \<Rightarrow> state \<Rightarrow> state" where
  "ensureLink nodeId relation s =
     (case find (\<lambda>l. l_source l = nodeId \<and> l_target l = r_target relation
                     \<and> l_property l = r_property relation) (displayedLinks s) of
        None \<Rightarrow> pushLink (relationLink nodeId relation) s
      | Some existingLink \<Rightarrow> s)"

text \<open>
  \<open>expandNode(nodeId, depth)\<close> with its loop over \<open>node.relations\<close>. The loop
  (\<open>expandRelations\<close>) skips a relation whose target is not in the node map, makes
  the link check, and recurses into a target that is not displayed yet with
  \<open>depth - 1\<close>.
\<close>

function (sequential) expandNode :: "string \<Rightarrow> int \<Rightarrow> state \<Rightarrow> state"
  and expandRelations :: "string \<Rightarrow> int \<Rightarrow> relation list \<Rightarrow> state \<Rightarrow> state" where
  "expandNode nodeId depth s =
     (case map_of (nodes s) nodeId of
        None \<Rightarrow> s
      | Some node \<Rightarrow>
          if depth \<le> 0 then addDisplayed nodeId s
          else expandRelations nodeId depth (n_relations node) (addDisplayed nodeId s))"
| "expandRelations nodeId depth [] s = s"
| "expandRelations nodeId depth (relation # rest) s =
     (if map_has (nodes s) (r_target relation) then
        let s1 = ensureLink nodeId relation s;
            s2 =
              (if \<not> set_has (displayedNodes s1) (r_target relation)
               then expandNode (r_target relation) (depth - 1) s1 else s1)
        in expandRelations nodeId depth rest s2
      else expandRelations nodeId depth rest s)"
  by pat_completeness auto

termination
  by (relation "measures
        [\<lambda>x. case x of
                Inl (nodeId, depth, s) \<Rightarrow> 2 * nat depth
              | Inr (nodeId, depth, rels, s) \<Rightarrow> (if 0 < depth then 2 * nat depth - 1 else 1),
         \<lambda>x. case x of
                Inl (nodeId, depth, s) \<Rightarrow> 0
              | Inr (nodeId, depth, rels, s) \<Rightarrow> length rels]")
     auto

declare expandNode.simps [simp del] expandRelations.simps [simp del]

text \<open>
  \<open>updateGraph\<close> reads \<open>node.id\<close> of \<open>state.nodes.get(id)\<close> for every displayed id
  and so throws a TypeError when a displayed id is not a key of the node map; otherwise
  it only redraws. \<open>renders\<close> says that it does not throw.
\<close>

definition renders :: "state \<Rightarrow> bool" where
  "renders s = list_all (map_has (nodes s)) (displayedNodes s)"

text \<open>
  \<open>initializeGraph(depth, startNodeId)\<close>, up to the final \<open>updateGraph()\<close>. The start
  node is the argument, else the URL parameter \<open>node\<close>, else the current schema name.
\<close>

definition initializeGraph :: "int \<Rightarrow> string option \<Rightarrow> state \<Rightarrow> state" where
  "initializeGraph depth startNodeId s =
     (let s1 = s\<lparr>displayedNodes := [], displayedLinks := []\<rparr>;
          effectiveStartNode =
            (if truthy startNodeId then orElse startNodeId []
             else orElse (map_of (urlParams (page s1)) ''node'') (currentSchemaName s1))
      in if depth = 0 then addDisplayed effectiveStartNode s1
         else expandNode effectiveStartNode depth s1)"

text \<open>The entries of \<open>getReverseRelations\<close>.\<close>

record reverseRelation =
  v_source :: string
  v_sourceName :: string
  v_type :: relType
  v_property :: string
  v_isArray :: bool
  v_via :: "string option"
  v_description :: string

definition reverseOf :: "string \<Rightarrow> node \<Rightarrow> relation \<Rightarrow> reverseRelation" where
  "reverseOf sourceId sourceNode relation =
     \<lparr>v_source = sourceId,
      v_sourceName = n_name sourceNode,
      v_type = r_type relation,
      v_property = r_property relation,
      v_isArray = r_isArray relation,
      v_via = r_via relation,
      v_description = r_description relation\<rparr>"

fun reverseFrom :: "string \<Rightarrow> (string \<times> node) list \<Rightarrow> reverseRelation list" where
  "reverseFrom nodeId [] = []"
| "reverseFrom nodeId ((sourceId, sourceNode) # rest) =
     (if sourceId = nodeId then reverseFrom nodeId rest
      else map (reverseOf sourceId sourceNode)
             (filter (\<lambda>relation. r_target relation = nodeId) (n_relations sourceNode))
           @ reverseFrom nodeId rest)"

definition getReverseRelations :: "string \<Rightarrow> state \<Rightarrow> reverseRelation list" where
  "getReverseRelations nodeId s = reverseFrom nodeId (nodes s)"

definition reverseLink :: "string \<Rightarrow> reverseRelation \<Rightarrow> link" where
  "reverseLink nodeId reverse =
     \<lparr>l_id = compositeId (v_source reverse) nodeId (v_property reverse),
      l_source = v_source reverse,
      l_target = nodeId,
      l_type = v_type reverse,
      l_property = v_property reverse,
      l_isArray = v_isArray reverse,
      l_via = v_via reverse\<rparr>"

text \<open>
  The loop of \<open>autoAddReverseLinks\<close>, threading the state and the flag
  \<open>addedLinks\<close>; the function returns the flag.
\<close>

fun addReverseLinks :: "string \<Rightarrow> reverseRelation list \<Rightarrow> state \<times> bool \<Rightarrow> state \<times> bool" where
  "addReverseLinks nodeId [] (s, addedLinks) = (s, addedLinks)"
| "addReverseLinks nodeId (reverse # rest) (s, addedLinks) =
     (if set_has (displayedNodes s) (v_source reverse) then
        (case find (\<lambda>l. l_id l = compositeId (v_source reverse) nodeId (v_property reverse))
                (displayedLinks s) of
           None \<Rightarrow> addReverseLinks nodeId rest (pushLink (reverseLink nodeId reverse) s, True)
         | Some existingLink \<Rightarrow> addReverseLinks nodeId rest (s, addedLinks))
      else addReverseLinks nodeId rest (s, addedLinks))"

definition autoAddReverseLinks :: "string \<Rightarrow> state \<Rightarrow> state \<times> bool" where
  "autoAddReverseLinks nodeId s =
     addReverseLinks nodeId (getReverseRelations nodeId s) (s, False)"

fun addForwardLinks :: "string \<Rightarrow> relation list \<Rightarrow> state \<times> bool \<Rightarrow> state \<times> bool" where
  "addForwardLinks nodeId [] (s, addedLinks) = (s, addedLinks)"
| "addForwardLinks nodeId (relation # rest) (s, addedLinks) =
     (if set_has (displayedNodes s) (r_target relation) then
        (case find (\<lambda>l. l_id l = compositeId nodeId (r_target relation) (r_property relation))
                (displayedLinks s) of
           None \<Rightarrow> addForwardLinks nodeId rest (pushLink (relationLink nodeId relation) s, True)
         | Some existingLink \<Rightarrow> addForwardLinks nodeId rest (s, addedLinks))
      else addForwardLinks nodeId rest (s, addedLinks))"

definition autoAddForwardLinks :: "string \<Rightarrow> state \<Rightarrow> state \<times> bool" where
  "autoAddForwardLinks nodeId s =
     (case map_of (nodes s) nodeId of
        None \<Rightarrow> (s, False)
      | Some node \<Rightarrow> addForwardLinks nodeId (n_relations node) (s, False))"

section \<open>search.js\<close>

datatype resultType = Entity | Relation | Property

text \<open>
  A search result. The fields \<open>color\<close> and \<open>nodeName\<close> of the source are only
  rendered; they are left out.
\<close>

record result =
  res_type :: resultType
  res_id :: string
  res_name :: string
  res_nodeId :: "string option"
  res_relation :: "relation option"
  res_meta :: string

definition entityResults :: "string \<Rightarrow> string \<Rightarrow> node \<Rightarrow> result list" where
  "entityResults query ident node =
     (let nameMatch = includes_str (toLowerCase (n_name node)) query;
          idMatch = includes_str (toLowerCase ident) query
      in if nameMatch \<or> idMatch then
           [\<lparr>res_type = Entity, res_id = ident, res_name = n_name node,
             res_nodeId = None, res_relation = None,
             res_meta = (if ident \<noteq> n_name node then ident else n_description node)\<rparr>]
         else [])"

fun propertyResults :: "string \<Rightarrow> string \<Rightarrow> node \<Rightarrow> (string \<times> propDef) list \<Rightarrow> result list" where
  "propertyResults query ident node [] = []"
| "propertyResults query ident node ((propName, propDef) # rest) =
     (if includes_str (toLowerCase propName) query then
        (let relation = find (\<lambda>r. r_property r = propName) (n_relations node) in
         \<lparr>res_type = (if relation \<noteq> None then Relation else Property),
          res_id = ident @ ''-'' @ propName,
          res_name = n_name node @ ''.'' @ propName,
          res_nodeId = Some ident,
          res_relation = relation,
          res_meta = orElse (p_description propDef) []\<rparr>
         # propertyResults query ident node rest)
      else propertyResults query ident node rest)"

text \<open>The unsorted \<open>results\<close> array: per node, the entity match and then its properties.\<close>

fun searchMatches :: "string \<Rightarrow> (string \<times> node) list \<Rightarrow> result list" where
  "searchMatches query [] = []"
| "searchMatches query ((ident, node) # rest) =
     entityResults query ident node
     @ propertyResults query ident node (n_properties node)
     @ searchMatches query rest"

definition typeWeight :: "resultType \<Rightarrow> int" where
  "typeWeight t = (case t of Entity \<Rightarrow> 1 | Relation \<Rightarrow> 2 | Property \<Rightarrow> 3)"

text \<open>\<open>aLower.split('.').pop()\<close> for a relation or property, \<open>aLower\<close> for an entity.\<close>

definition matchPart :: "result \<Rightarrow> string" where
  "matchPart a =
     (if res_type a = Entity then toLowerCase (res_name a)
      else last (split_str CHR ''.'' (toLowerCase (res_name a))))"

text \<open>
  \<open>String.prototype.localeCompare\<close> is a built-in that compares by the collation of the
  host's locale: negative, zero or positive. On plain text, for a collation that orders
  single characters (the root collation and English do), it is the lexicographic
  comparison of the two strings under the collation's order of characters. That order
  is not the order of the character codes, and it is a parameter: the weight
  \<open>collation\<close> of a character.
\<close>

fun localeCompare :: "(char \<Rightarrow> nat) \<Rightarrow> string \<Rightarrow> string \<Rightarrow> int" where
  "localeCompare collation [] [] = 0"
| "localeCompare collation [] (y # ys) = - 1"
| "localeCompare collation (x # xs) [] = 1"
| "localeCompare collation (x # xs) (y # ys) =
     (if collation x < collation y then - 1
      else if collation y < collation x then 1
      else localeCompare collation xs ys)"

text \<open>The comparator passed to \<open>sort\<close>.\<close>

definition compareResults :: "(char \<Rightarrow> nat) \<Rightarrow> string \<Rightarrow> result \<Rightarrow> result \<Rightarrow> int" where
  "compareResults collation query a b =
     (if typeWeight (res_type a) \<noteq> typeWeight (res_type b)
      then typeWeight (res_type a) - typeWeight (res_type b)
      else
        let aLower = toLowerCase (res_name a);
            bLower = toLowerCase (res_name b);
            aStartsWith = startsWith (matchPart a) query;
            bStartsWith = startsWith (matchPart b) query
        in if aStartsWith \<and> \<not> bStartsWith then - 1
           else if \<not> aStartsWith \<and> bStartsWith then 1
           else if length aLower \<noteq> length bLower
                then int (length aLower) - int (length bLower)
           else localeCompare collation aLower bLower)"

text \<open>
  \<open>Array.prototype.sort\<close> with a comparator is a stable sort: \<open>a\<close> is placed before
  \<open>b\<close> when the comparator is negative, after it when positive, and equal elements keep
  their order. It is modelled by insertion sort.
\<close>

fun insertBy :: "('a \<Rightarrow> 'a \<Rightarrow> int) \<Rightarrow> 'a \<Rightarrow> 'a list \<Rightarrow> 'a list" where
  "insertBy cmp x [] = [x]"
| "insertBy cmp x (y # ys) = (if cmp x y \<le> 0 then x # y # ys else y # insertBy cmp x ys)"

definition sortBy :: "('a \<Rightarrow> 'a \<Rightarrow> int) \<Rightarrow> 'a list \<Rightarrow> 'a list" where
  "sortBy cmp xs = foldr (insertBy cmp) xs []"

definition performSearch :: "(char \<Rightarrow> nat) \<Rightarrow> string \<Rightarrow> state \<Rightarrow> result list" where
  "performSearch collation query s =
     take 50 (sortBy (compareResults collation query) (searchMatches query (nodes s)))"

text \<open>
  The ranking as the specification words it: type weight first, then prefix matches of
  the match-relevant part before the others, then the shorter name, then the
  lexicographic order of the lowercased names. The lexicographic order is that of the
  list library (\<open>lexord\<close>) over the strings' character weights.
\<close>

definition lexicographicLe :: "(char \<Rightarrow> nat) \<Rightarrow> string \<Rightarrow> string \<Rightarrow> bool" where
  "lexicographicLe collation x y =
     (map collation x = map collation y
      \<or> (map collation x, map collation y) \<in> lexord {(m, n). m < n})"

definition rankedBefore :: "(char \<Rightarrow> nat) \<Rightarrow> string \<Rightarrow> result \<Rightarrow> result \<Rightarrow> bool" where
  "rankedBefore collation query a b =
     (let wa = typeWeight (res_type a); wb = typeWeight (res_type b);
          pa = startsWith (matchPart a) query; pb = startsWith (matchPart b) query;
          la = length (toLowerCase (res_name a)); lb = length (toLowerCase (res_name b))
      in wa < wb
         \<or> (wa = wb \<and> ((pa \<and> \<not> pb)
              \<or> (pa = pb \<and> (la < lb
                   \<or> (la = lb
                       \<and> lexicographicLe collation
                            (toLowerCase (res_name a)) (toLowerCase (res_name b))))))))"

text \<open>
  The node maps the search is verified for: ids, names and property names are plain
  text.
\<close>

definition plainNodes :: "(string \<times> node) list \<Rightarrow> bool" where
  "plainNodes ns =
     list_all (\<lambda>entry. isPlain (fst entry) \<and> isPlain (n_name (snd entry))
                 \<and> list_all (\<lambda>p. isPlain (fst p)) (n_properties (snd entry))) ns"

section \<open>Application entry point: loading a schema\<close>

text \<open>
  The link branch of \<open>loadSchema\<close>: the URL parameter \<open>link\<close> is split at \<open>-\<close>, its
  first two parts are added to the displayed set, and the link is pushed when the source
  node has a matching relation. The result carries the flag \<open>changed\<close>.
\<close>

definition restoreLink :: "string \<Rightarrow> string \<Rightarrow> string \<Rightarrow> string \<Rightarrow> state \<Rightarrow> state \<times> bool" where
  "restoreLink linkParam sourceId targetId property s =
     (let changed1 = \<not> set_has (displayedNodes s) sourceId;
          s1 = (if changed1 then addDisplayed sourceId s else s);
          changed2 = (changed1 \<or> \<not> set_has (displayedNodes s1) targetId);
          s2 = (if \<not> set_has (displayedNodes s1) targetId then addDisplayed targetId s1 else s1)
      in case find (\<lambda>l. l_id l = linkParam) (displayedLinks s2) of
           Some existingLink \<Rightarrow> (s2, changed2)
         | None \<Rightarrow>
             (case map_of (nodes s2) sourceId of
                None \<Rightarrow> (s2, changed2)
              | Some sourceNode \<Rightarrow>
                  (case find (\<lambda>r. r_target r = targetId \<and> r_property r = property)
                          (n_relations sourceNode) of
                     None \<Rightarrow> (s2, changed2)
                   | Some relation \<Rightarrow>
                       (pushLink
                          \<lparr>l_id = linkParam, l_source = sourceId, l_target = targetId,
                           l_type = r_type relation, l_property = r_property relation,
                           l_isArray = r_isArray relation, l_via = r_via relation\<rparr> s2,
                        True))))"

text \<open>
  \<open>loadSchema\<close> after the fetch, with the fetched document and the value of the depth
  slider as arguments. An exception of \<open>updateGraph\<close> ends the \<open>try\<close> block: the
  \<open>catch\<close> writes the error panel and the state keeps what was written before.
\<close>

definition errorPanel :: "state \<Rightarrow> state" where
  "errorPanel s = s\<lparr>page := (page s)\<lparr>sidebarContent := ErrorState\<rparr>\<rparr>"

definition loadSchema :: "schema \<Rightarrow> string \<Rightarrow> int \<Rightarrow> state \<Rightarrow> state" where
  "loadSchema schemaData schemaName depth s =
     (let s1 = s\<lparr>nodes := parseSchema schemaData schemaName\<rparr>;
          nodeParam = map_of (urlParams (page s1)) ''node'';
          linkParam = map_of (urlParams (page s1)) ''link'';
          s2 = initializeGraph depth None s1
      in if \<not> renders s2 then errorPanel s2
         else if truthy nodeParam then selectNode (orElse nodeParam []) s2
         else if truthy linkParam then
           (case split_str CHR ''-'' (orElse linkParam []) of
              sourceId # targetId # p # ps \<Rightarrow>
                (let (s3, changed) =
                       restoreLink (orElse linkParam []) sourceId targetId
                         (join_str ''-'' (p # ps)) s2
                 in if changed \<and> \<not> renders s3 then errorPanel s3
                    else selectLink (orElse linkParam []) s3)
            | _ \<Rightarrow> s2)
         else s2\<lparr>page := (page s2)\<lparr>sidebarCollapsed := True, sidebarContent := EmptyState\<rparr>\<rparr>)"

section \<open>Example inputs\<close>

text \<open>
  A freshly loaded page (the initial values of state.js, no query parameters) and a
  small schema document: the root refers to \<open>Package\<close> and to an undefined
  \<open>Vendor\<close>; \<open>Package\<close> refers to \<open>PackageLink\<close> and, by association, to itself.
\<close>

definition blankPage :: view where
  "blankPage = \<lparr>urlParams = [], sidebarCollapsed = False, sidebarTitle = [],
     sidebarContent = EmptyState, markedNode = None, markedLink = None\<rparr>"

definition initialState :: state where
  "initialState = \<lparr>nodes = [], displayedNodes = [], displayedLinks = [],
     selectedNode = None, selectedLink = None, currentSchemaName = ''Document'',
     page = blankPage\<rparr>"

definition refProperty :: "string \<Rightarrow> propDef" where
  "refProperty ref = \<lparr>p_ref = Some ref, p_items = None, p_assoc = None, p_description = None\<rparr>"

definition arrayProperty :: "string \<Rightarrow> propDef" where
  "arrayProperty ref =
     \<lparr>p_ref = None,
      p_items = Some \<lparr>i_ref = Some ref, i_assoc = None, i_description = None\<rparr>,
      p_assoc = None, p_description = None\<rparr>"

definition assocProperty :: "string list \<Rightarrow> propDef" where
  "assocProperty targets =
     \<lparr>p_ref = None, p_items = None, p_assoc = Some targets, p_description = Some ''association''\<rparr>"

definition plainProperty :: propDef where
  "plainProperty = \<lparr>p_ref = None, p_items = None, p_assoc = None, p_description = None\<rparr>"

definition objectDef :: "(string \<times> propDef) list \<Rightarrow> schemaDef" where
  "objectDef props =
     \<lparr>d_type = Some ''object'', d_umsType = None, d_description = None, d_properties = Some props\<rparr>"

definition exampleSchema :: schema where
  "exampleSchema =
     \<lparr>s_title = Some ''ORD Document'', s_umsType = None, s_description = None,
      s_properties = Some
        [(''packages'', arrayProperty ''#/definitions/Package''),
         (''vendor'', refProperty ''#/definitions/Vendor'')],
      s_definitions = Some
        [(''Package'', objectDef
            [(''packageLinks'', arrayProperty ''#/definitions/PackageLink''),
             (''partOfPackage'', assocProperty [''#/definitions/Package/ordId'']),
             (''version'', plainProperty)]),
         (''PackageLink'', objectDef [(''url'', plainProperty)])]\<rparr>"

definition exampleState :: state where
  "exampleState = loadSchema exampleSchema ''Document'' 1 initialState"

text \<open>The root node and its only relation, as parsed from the example schema.\<close>

definition packagesRelation :: relation where
  "packagesRelation =
     \<lparr>r_type = composition, r_target = ''Package'', r_property = ''packages'',
      r_isArray = True, r_via = None, r_description = []\<rparr>"

definition exampleRoot :: node where
  "exampleRoot =
     \<lparr>n_id = ''Document'', n_name = ''ORD Document'', n_type = ''root'', n_umsType = ''root'',
      n_description = [],
      n_properties =
        [(''packages'', arrayProperty ''#/definitions/Package''),
         (''vendor'', refProperty ''#/definitions/Vendor'')],
      n_relations = [packagesRelation]\<rparr>"

text \<open>The node \<open>Package\<close> and its relations, as parsed from the example schema.\<close>

definition packageLinksRelation :: relation where
  "packageLinksRelation =
     \<lparr>r_type = composition, r_target = ''PackageLink'', r_property = ''packageLinks'',
      r_isArray = True, r_via = None, r_description = []\<rparr>"

definition partOfRelation :: relation where
  "partOfRelation =
     \<lparr>r_type = association, r_target = ''Package'', r_property = ''partOfPackage'',
      r_isArray = False, r_via = Some ''#/definitions/Package/ordId'',
      r_description = ''association''\<rparr>"

definition examplePackage :: node where
  "examplePackage =
     \<lparr>n_id = ''Package'', n_name = ''Package'', n_type = ''object'', n_umsType = ''default'',
      n_description = [],
      n_properties =
        [(''packageLinks'', arrayProperty ''#/definitions/PackageLink''),
         (''partOfPackage'', assocProperty [''#/definitions/Package/ordId'']),
         (''version'', plainProperty)],
      n_relations = [packageLinksRelation, partOfRelation]\<rparr>"

text \<open>The example schema parsed, with nothing displayed yet.\<close>

definition parsedState :: state where
  "parsedState = initialState\<lparr>nodes := parseSchema exampleSchema ''Document''\<rparr>"

text \<open>
  A schema whose definition names contain a hyphen: \<open>A-B\<close> refers to \<open>A\<close> by its
  property \<open>p\<close>, and \<open>A\<close> refers to \<open>B\<close> by its property \<open>A-p\<close>.
\<close>

definition hyphenSchema :: schema where
  "hyphenSchema =
     \<lparr>s_title = None, s_umsType = None, s_description = None, s_properties = None,
      s_definitions = Some
        [(''A-B'', objectDef [(''p'', refProperty ''#/definitions/A'')]),
         (''A'', objectDef [(''A-p'', refProperty ''#/definitions/B'')]),
         (''B'', objectDef [])]\<rparr>"

definition hyphenState :: state where
  "hyphenState = initialState\<lparr>nodes := parseSchema hyphenSchema ''Document''\<rparr>"

text \<open>
  The example state after \<open>PackageLink\<close> has been added to the displayed set, as
  \<open>handleResultSelection\<close> does before it calls \<open>autoAddReverseLinks\<close>, and the
  reverse relation from \<open>Package\<close> to \<open>PackageLink\<close>.
\<close>

definition exampleShown :: state where
  "exampleShown = addDisplayed ''PackageLink'' exampleState"

definition exampleReverse :: reverseRelation where
  "exampleReverse = reverseOf ''Package'' examplePackage packageLinksRelation"

text \<open>
  The freshly loaded page opened with the query \<open>?link=Vendor-Team-owner\<close>, and the
  parsed example opened with \<open>?node=Vendor\<close>; the example schema defines neither
  \<open>Vendor\<close> nor \<open>Team\<close>.
\<close>

definition linkQueryState :: state where
  "linkQueryState =
     initialState\<lparr>page := blankPage\<lparr>urlParams := [(''link'', ''Vendor-Team-owner'')]\<rparr>\<rparr>"

definition nodeQueryState :: state where
  "nodeQueryState = parsedState\<lparr>page := blankPage\<lparr>urlParams := [(''node'', ''Vendor'')]\<rparr>\<rparr>"

text \<open>
  A collation for the examples, the character codes, and a schema with two definitions
  whose names have the same length and differ in the last letter only.
\<close>

definition codeUnits :: "char \<Rightarrow> nat" where
  "codeUnits c = of_char c"

definition packetSchema :: schema where
  "packetSchema =
     \<lparr>s_title = None, s_umsType = None, s_description = None, s_properties = None,
      s_definitions = Some [(''Packet'', objectDef []), (''Packer'', objectDef [])]\<rparr>"

definition packetState :: state where
  "packetState = initialState\<lparr>nodes := parseSchema packetSchema ''Document''\<rparr>"

text \<open>
  A schema with 52 definitions \<open>pk!\<close>, \<open>pk#\<close> and so on to \<open>pkz\<close>: the same
  first two letters and a third character that differs.
\<close>

definition manyChars :: string where
  "manyChars = ''!#$%&()*+,-./0123456789:;<abcdefghijklmnopqrstuvwxyz''"

definition manySchema :: schema where
  "manySchema =
     \<lparr>s_title = None, s_umsType = None, s_description = None, s_properties = None,
      s_definitions = Some (map (\<lambda>c. ([CHR ''p'', CHR ''k'', c], objectDef [])) manyChars)\<rparr>"

definition manyState :: state where
  "manyState = initialState\<lparr>nodes := parseSchema manySchema ''Document''\<rparr>"

section \<open>Selection properties\<close>

lemma selectNode_selection:
  "selectedNode (selectNode nodeId s) = Some nodeId \<and> selectedLink (selectNode nodeId s) = None"
  by (simp add: selectNode_def Let_def split: option.splits)

lemma selectLink_selection:
  "selectedLink (selectLink linkId s) = Some linkId \<and> selectedNode (selectLink linkId s) = None"
  by (simp add: selectLink_def Let_def split: option.splits)

lemma selectStep_exclusive:
  "selectedNode (selectStep s c) = None \<or> selectedLink (selectStep s c) = None"
  by (cases c) (simp_all add: selectNode_selection selectLink_selection)

lemma selectCalls_exclusive:
  "selectedNode s = None \<or> selectedLink s = None \<Longrightarrow>
   selectedNode (selectCalls calls s) = None \<or> selectedLink (selectCalls calls s) = None"
proof (induction calls arbitrary: s rule: rev_induct)
  case Nil
  then show ?case by (simp add: selectCalls_def)
next
  case (snoc c calls)
  show ?case
    using selectStep_exclusive [of "foldl selectStep s calls" c]
    by (simp add: selectCalls_def)
qed

text \<open>
  Claim C1. Selecting a node leaves \<open>selectedLink\<close> null and selecting a link leaves
  \<open>selectedNode\<close> null; hence after any sequence of calls to \<open>selectNode\<close> and
  \<open>selectLink\<close> that starts in a state with both selection fields null (whatever the rest
  of the state is), at most one of the two fields is set. The sequence is arbitrary, so
  this covers the state after every call of a longer sequence.
\<close>

theorem selection_mutually_exclusive:
  "selectedLink (selectNode nodeId s) = None
   \<and> selectedNode (selectLink linkId s) = None
   \<and> (selectedNode (selectCalls calls (s\<lparr>selectedNode := None, selectedLink := None\<rparr>)) = None
      \<or> selectedLink (selectCalls calls (s\<lparr>selectedNode := None, selectedLink := None\<rparr>)) = None)"
proof -
  have "selectedNode (s\<lparr>selectedNode := None, selectedLink := None\<rparr>) = None
        \<or> selectedLink (s\<lparr>selectedNode := None, selectedLink := None\<rparr>) = None"
    by simp
  from selectCalls_exclusive [OF this]
  show ?thesis
    by (simp add: selectNode_selection selectLink_selection)
qed

lemma find_None_ids: "(find (\<lambda>l. l_id l = i) ls = None) = (i \<notin> l_id ` set ls)"
  by (auto simp: find_None_iff)

lemma map_has_keys: "map_has m k = (k \<in> fst ` set m)"
  by (simp add: map_has_def map_of_eq_None_iff)

text \<open>
  Claim C2, as stated, fails: \<open>selectLink\<close> assigns both selection fields before it
  looks the link up. In the example state with the node \<open>Package\<close> selected, selecting
  the id \<open>Package-Vendor-vendor\<close>, which no displayed link has, clears
  \<open>selectedNode\<close> and sets \<open>selectedLink\<close> to that id.
\<close>

theorem selectLink_unknown_id_counterexample:
  "''Package-Vendor-vendor'' \<notin> l_id ` set (displayedLinks (selectNode ''Package'' exampleState))
   \<and> selectedNode (selectNode ''Package'' exampleState) = Some ''Package''
   \<and> selectedNode (selectLink ''Package-Vendor-vendor'' (selectNode ''Package'' exampleState)) = None
   \<and> selectedLink (selectLink ''Package-Vendor-vendor'' (selectNode ''Package'' exampleState))
       = Some ''Package-Vendor-vendor''"
  by code_simp

text \<open>
  Claim C2, amended. For every state and every link id that no displayed link has,
  \<open>selectLink\<close> sets \<open>selectedLink\<close> to that id and \<open>selectedNode\<close> to null and
  changes nothing else: the node map, the displayed nodes and links, the URL, the
  sidebar and the highlighting stay as they were.
\<close>

theorem selectLink_unknown_id:
  "linkId \<notin> l_id ` set (displayedLinks s) \<Longrightarrow>
   selectLink linkId s = s\<lparr>selectedLink := Some linkId, selectedNode := None\<rparr>"
  by (simp add: selectLink_def Let_def find_None_ids [symmetric])

theorem selectLink_unknown_id_witness:
  "''Package-Vendor-vendor'' \<notin> l_id ` set (displayedLinks exampleState)
   \<and> selectLink ''Package-Vendor-vendor'' exampleState
       = exampleState\<lparr>selectedLink := Some ''Package-Vendor-vendor'', selectedNode := None\<rparr>"
proof -
  have h: "''Package-Vendor-vendor'' \<notin> l_id ` set (displayedLinks exampleState)"
    by code_simp
  from selectLink_unknown_id [OF h] h show ?thesis by simp
qed

text \<open>
  Claim C10. For every state and every node id that is not a key of the node map,
  \<open>selectNode\<close> still writes the selection: \<open>selectedNode\<close> becomes that id and
  \<open>selectedLink\<close> null, and nothing else changes; in particular the URL, the sidebar
  and the highlighting (the page) are untouched.
\<close>

theorem selectNode_unknown_id:
  "nodeId \<notin> fst ` set (nodes s) \<Longrightarrow>
   selectNode nodeId s = s\<lparr>selectedNode := Some nodeId, selectedLink := None\<rparr>
   \<and> selectedNode (selectNode nodeId s) = Some nodeId
   \<and> selectedLink (selectNode nodeId s) = None
   \<and> page (selectNode nodeId s) = page s"
  by (simp add: selectNode_def Let_def map_of_eq_None_iff [symmetric])

theorem selectNode_unknown_id_witness:
  "''Vendor'' \<notin> fst ` set (nodes exampleState)
   \<and> selectNode ''Vendor'' exampleState
       = exampleState\<lparr>selectedNode := Some ''Vendor'', selectedLink := None\<rparr>
   \<and> selectedNode (selectNode ''Vendor'' exampleState) = Some ''Vendor''
   \<and> selectedLink (selectNode ''Vendor'' exampleState) = None
   \<and> page (selectNode ''Vendor'' exampleState) = page exampleState"
proof -
  have h: "''Vendor'' \<notin> fst ` set (nodes exampleState)"
    by code_simp
  from selectNode_unknown_id [OF h] h show ?thesis by simp
qed

section \<open>Parser properties\<close>

lemma map_set_keys: "fst ` set (map_set k v m) = insert k (fst ` set m)"
  by (induction m) auto

lemma map_set_values: "(k', v') \<in> set (map_set k v m) \<Longrightarrow> v' = v \<or> (k', v') \<in> set m"
  by (induction m) (auto split: if_splits)

lemma addDefinitions_keys:
  "fst ` set (addDefinitions ds m) = fst ` set m \<union> fst ` set ds"
  by (induction ds m rule: addDefinitions.induct) (auto simp: map_set_keys)

lemma addDefinitions_relations:
  "(k, n) \<in> set (addDefinitions ds m) \<Longrightarrow>
   \<forall>(k', n') \<in> set m. n_relations n' = [] \<Longrightarrow> n_relations n = []"
proof (induction ds m rule: addDefinitions.induct)
  case (1 allNodes)
  then show ?case by auto
next
  case (2 name d rest allNodes)
  have "\<forall>(k', n') \<in> set (map_set name (definitionNode name d) allNodes). n_relations n' = []"
    using 2(3) by (auto dest!: map_set_values simp: definitionNode_def)
  with 2 show ?case by simp
qed

lemma assocRelations_known:
  "r \<in> set (assocRelations propName isArr descr allNodes targets) \<Longrightarrow>
   map_has allNodes (r_target r)"
  by (induction targets) (auto simp: targetKnown_def split: option.splits if_splits)

lemma propertyRelations_known:
  "r \<in> set (propertyRelations propName propDef allNodes) \<Longrightarrow> map_has allNodes (r_target r)"
  unfolding propertyRelations_def Let_def set_append Un_iff
proof (elim disjE, goal_cases)
  case 1
  then show ?case
    by (cases "truthy (p_ref propDef)";
        cases "extractRefTarget (orElse (p_ref propDef) [])")
       (simp_all add: targetKnown_def split: if_splits)
next
  case 2
  define itemsRef where "itemsRef = (case p_items propDef of None \<Rightarrow> None | Some it \<Rightarrow> i_ref it)"
  from 2 show ?case
    unfolding itemsRef_def [symmetric]
    by (cases "truthy itemsRef"; cases "extractRefTarget (orElse itemsRef [])")
       (simp_all add: targetKnown_def split: if_splits)
next
  case 3
  then show ?case
    by (cases "p_assoc propDef") (auto dest: assocRelations_known)
next
  case 4
  then show ?case
    by (cases "case p_items propDef of None \<Rightarrow> None | Some it \<Rightarrow> i_assoc it")
       (auto dest: assocRelations_known)
qed

lemma extractRelations_known:
  "r \<in> set (extractRelations relations props allNodes) \<Longrightarrow>
   \<forall>r' \<in> set relations. map_has allNodes (r_target r') \<Longrightarrow>
   map_has allNodes (r_target r)"
proof (induction relations props allNodes rule: extractRelations.induct)
  case (1 relations allNodes)
  then show ?case by simp
next
  case (2 relations propName propDef rest allNodes)
  have "\<forall>r' \<in> set (relations @ propertyRelations propName propDef allNodes).
          map_has allNodes (r_target r')"
    using 2(3) by (auto dest: propertyRelations_known)
  with 2 show ?case by simp
qed

lemma relateDefinition_fst: "fst (relateDefinition ds rootId allNodes e) = fst e"
  by (simp add: relateDefinition_def split: option.splits)

lemma relateDefinition_known:
  assumes "r \<in> set (n_relations (snd (relateDefinition ds rootId allNodes e)))"
    and "\<forall>r' \<in> set (n_relations (snd e)). map_has allNodes (r_target r')"
  shows "map_has allNodes (r_target r)"
  using assms
  by (auto simp: relateDefinition_def split: option.splits if_splits
           dest: extractRelations_known)

lemma parseSchema_targets_known:
  assumes "(ident, node) \<in> set (parseSchema schema schemaName)"
    and "r \<in> set (n_relations node)"
  shows "map_has (parseSchema schema schemaName) (r_target r)"
proof -
  define ds where "ds = (case s_definitions schema of None \<Rightarrow> [] | Some ds \<Rightarrow> ds)"
  define nodes1 where "nodes1 = addDefinitions ds (map_set schemaName (rootNodeOf schema schemaName) [])"
  define rootRelations where
    "rootRelations = extractRelations [] (case s_properties schema of None \<Rightarrow> [] | Some ps \<Rightarrow> ps) nodes1"
  define nodes2 where
    "nodes2 = (if schemaName \<in> set (map fst ds) then nodes1
               else map_set schemaName ((rootNodeOf schema schemaName)\<lparr>n_relations := rootRelations\<rparr>) nodes1)"
  have parsed: "parseSchema schema schemaName = map (relateDefinition ds schemaName nodes2) nodes2"
    by (simp add: parseSchema_def Let_def ds_def nodes1_def rootRelations_def nodes2_def)
  have keys12: "fst ` set nodes2 = fst ` set nodes1"
    by (auto simp: nodes2_def map_set_keys nodes1_def addDefinitions_keys)
  have keys: "fst ` set (parseSchema schema schemaName) = fst ` set nodes2"
    by (simp add: parsed image_image relateDefinition_fst)
  have rel1: "n_relations n = []" if "(k, n) \<in> set nodes1" for k n
    using that unfolding nodes1_def
    by (rule addDefinitions_relations) (simp add: rootNodeOf_def)
  have root_known: "map_has nodes1 (r_target r')" if "r' \<in> set rootRelations" for r'
    using that unfolding rootRelations_def by (rule extractRelations_known) simp
  have rel2: "map_has nodes2 (r_target r')"
    if "(k, n) \<in> set nodes2" "r' \<in> set (n_relations n)" for k n r'
  proof -
    from that(1) have "n = (rootNodeOf schema schemaName)\<lparr>n_relations := rootRelations\<rparr>
        \<or> (k, n) \<in> set nodes1"
      by (auto simp: nodes2_def dest: map_set_values split: if_splits)
    then show ?thesis
    proof
      assume "n = (rootNodeOf schema schemaName)\<lparr>n_relations := rootRelations\<rparr>"
      with that(2) have "map_has nodes1 (r_target r')" by (simp add: root_known)
      then show ?thesis by (simp add: map_has_keys keys12)
    next
      assume "(k, n) \<in> set nodes1"
      with rel1 that(2) show ?thesis by fastforce
    qed
  qed
  from assms(1) obtain e where e: "e \<in> set nodes2"
    and node: "(ident, node) = relateDefinition ds schemaName nodes2 e"
    by (auto simp: parsed)
  have "\<forall>r' \<in> set (n_relations (snd e)). map_has nodes2 (r_target r')"
    using e rel2 [of "fst e" "snd e"] by simp
  moreover have "r \<in> set (n_relations (snd (relateDefinition ds schemaName nodes2 e)))"
    using assms(2) node [symmetric] by simp
  ultimately have "map_has nodes2 (r_target r)"
    by (rule relateDefinition_known [rotated])
  then show ?thesis by (simp add: map_has_keys keys)
qed

text \<open>
  Claim C6. For every schema document and schema name, every relation on every node of
  the map returned by \<open>parseSchema\<close> has a target that is a key of that map. A
  reference whose extracted target is not a key produces no relation.
\<close>

theorem parseSchema_relation_targets_exist:
  "(ident, node) \<in> set (parseSchema schema schemaName) \<Longrightarrow>
   r \<in> set (n_relations node) \<Longrightarrow>
   map_has (parseSchema schema schemaName) (r_target r)
   \<and> r_target r \<in> fst ` set (parseSchema schema schemaName)"
  using parseSchema_targets_known [of ident node schema schemaName r]
  by (simp add: map_has_keys)

text \<open>
  In the example schema the root has two references; \<open>Vendor\<close> is not defined, so only
  the relation to \<open>Package\<close> is recorded.
\<close>

theorem parseSchema_relation_targets_exist_witness:
  "(''Document'', exampleRoot) \<in> set (parseSchema exampleSchema ''Document'')
   \<and> packagesRelation \<in> set (n_relations exampleRoot)
   \<and> n_relations exampleRoot = [packagesRelation]
   \<and> map_has (parseSchema exampleSchema ''Document'') (r_target packagesRelation)
   \<and> r_target packagesRelation \<in> fst ` set (parseSchema exampleSchema ''Document'')"
proof -
  have h1: "(''Document'', exampleRoot) \<in> set (parseSchema exampleSchema ''Document'')"
    by code_simp
  have h2: "packagesRelation \<in> set (n_relations exampleRoot)"
    by code_simp
  have h3: "n_relations exampleRoot = [packagesRelation]"
    by code_simp
  from parseSchema_relation_targets_exist [OF h1 h2] h1 h2 h3 show ?thesis by simp
qed

section \<open>Expansion properties\<close>

lemma expand_terminates: "expandNode_expandRelations_dom x"
proof -
  have "All expandNode_expandRelations_dom"
    by (rule "expandNode_expandRelations.termination"
          [where R = "measures
            [\<lambda>x. case x of
                    Inl (nodeId, depth, s) \<Rightarrow> 2 * nat depth
                  | Inr (nodeId, depth, rels, s) \<Rightarrow> (if 0 < depth then 2 * nat depth - 1 else 1),
             \<lambda>x. case x of
                    Inl (nodeId, depth, s) \<Rightarrow> 0
                  | Inr (nodeId, depth, rels, s) \<Rightarrow> length rels]"]) auto
  then show ?thesis by simp
qed

lemma set_add_distinct: "distinct xs \<Longrightarrow> distinct (set_add x xs)"
  by (simp add: set_add_def)

lemma addDisplayed_simps [simp]:
  "nodes (addDisplayed n s) = nodes s"
  "displayedLinks (addDisplayed n s) = displayedLinks s"
  "set (displayedNodes (addDisplayed n s)) = insert n (set (displayedNodes s))"
  by (auto simp: addDisplayed_def set_add_def)

lemma addDisplayed_distinct:
  "distinct (displayedNodes s) \<Longrightarrow> distinct (displayedNodes (addDisplayed n s))"
  by (simp add: addDisplayed_def set_add_distinct)

lemma pushLink_simps [simp]:
  "nodes (pushLink l s) = nodes s"
  "displayedNodes (pushLink l s) = displayedNodes s"
  "displayedLinks (pushLink l s) = displayedLinks s @ [l]"
  by (auto simp: pushLink_def)

lemma find_key:
  "find (\<lambda>l. l_source l = a \<and> l_target l = b \<and> l_property l = c) ls = None
   \<longleftrightarrow> (a, b, c) \<notin> linkKey ` set ls"
  by (auto simp: find_None_iff linkKey_def)

lemma linkKey_relationLink [simp]:
  "linkKey (relationLink n r) = (n, r_target r, r_property r)"
  by (simp add: linkKey_def relationLink_def)

lemma ensureLink_simps [simp]:
  "nodes (ensureLink n r s) = nodes s"
  "displayedNodes (ensureLink n r s) = displayedNodes s"
  by (auto simp: ensureLink_def split: option.splits)

lemma ensureLink_links:
  "displayedLinks (ensureLink n r s) =
     (if (n, r_target r, r_property r) \<in> linkKey ` set (displayedLinks s)
      then displayedLinks s else displayedLinks s @ [relationLink n r])"
  using find_key [of n "r_target r" "r_property r" "displayedLinks s"]
  by (auto simp: ensureLink_def split: option.splits)

lemma expandRelations_Cons:
  "expandRelations nodeId depth (relation # rest) s =
     (if map_has (nodes s) (r_target relation) then
        expandRelations nodeId depth rest
          (if \<not> set_has (displayedNodes s) (r_target relation)
           then expandNode (r_target relation) (depth - 1) (ensureLink nodeId relation s)
           else ensureLink nodeId relation s)
      else expandRelations nodeId depth rest s)"
  by (simp add: expandRelations.simps Let_def)

lemma expand_nodes:
  "nodes (expandNode nodeId depth s) = nodes s"
  "nodes (expandRelations nodeId depth rels s) = nodes s"
proof (induction nodeId depth s and nodeId depth rels s rule: expandNode_expandRelations.induct)
  case (1 nodeId depth s)
  then show ?case by (simp add: expandNode.simps split: option.splits)
next
  case (2 nodeId depth s)
  then show ?case by (simp add: expandRelations.simps)
next
  case (3 nodeId depth relation rest s)
  then show ?case
    by (simp add: expandRelations.simps Let_def)
qed

lemma expand_links_mono:
  "set (displayedLinks s) \<subseteq> set (displayedLinks (expandNode nodeId depth s))"
  "set (displayedLinks s) \<subseteq> set (displayedLinks (expandRelations nodeId depth rels s))"
proof (induction nodeId depth s and nodeId depth rels s rule: expandNode_expandRelations.induct)
  case (1 nodeId depth s)
  then show ?case by (auto simp: expandNode.simps split: option.splits)
next
  case (2 nodeId depth s)
  then show ?case by (simp add: expandRelations.simps)
next
  case (3 nodeId depth relation rest s)
  show ?case
  proof (cases "map_has (nodes s) (r_target relation)")
    case False
    with 3 show ?thesis by (simp add: expandRelations.simps)
  next
    case True
    define s1 where "s1 = ensureLink nodeId relation s"
    define s2 where "s2 = (if \<not> set_has (displayedNodes s1) (r_target relation)
               then expandNode (r_target relation) (depth - 1) s1 else s1)"
    have a: "set (displayedLinks s) \<subseteq> set (displayedLinks s1)"
      by (auto simp: s1_def ensureLink_links)
    have b: "set (displayedLinks s1) \<subseteq> set (displayedLinks s2)"
      using 3(1) [OF True s1_def] by (auto simp: s2_def)
    have c: "set (displayedLinks s2) \<subseteq> set (displayedLinks (expandRelations nodeId depth rest s2))"
      using 3(2) [OF True s1_def s2_def] .
    have "expandRelations nodeId depth (relation # rest) s = expandRelations nodeId depth rest s2"
      using True by (simp add: expandRelations.simps Let_def s1_def s2_def)
    with a b c show ?thesis by auto
  qed
qed

lemma expand_keys_distinct:
  "distinct (map linkKey (displayedLinks s)) \<Longrightarrow>
   distinct (map linkKey (displayedLinks (expandNode nodeId depth s)))"
  "distinct (map linkKey (displayedLinks s)) \<Longrightarrow>
   distinct (map linkKey (displayedLinks (expandRelations nodeId depth rels s)))"
proof (induction nodeId depth s and nodeId depth rels s rule: expandNode_expandRelations.induct)
  case (1 nodeId depth s)
  then show ?case by (auto simp: expandNode.simps split: option.splits)
next
  case (2 nodeId depth s)
  then show ?case by (simp add: expandRelations.simps)
next
  case (3 nodeId depth relation rest s)
  show ?case
  proof (cases "map_has (nodes s) (r_target relation)")
    case False
    with 3 show ?thesis by (simp add: expandRelations.simps)
  next
    case True
    define s1 where "s1 = ensureLink nodeId relation s"
    define s2 where "s2 = (if \<not> set_has (displayedNodes s1) (r_target relation)
               then expandNode (r_target relation) (depth - 1) s1 else s1)"
    have a: "distinct (map linkKey (displayedLinks s1))"
      using 3(4) by (simp add: s1_def ensureLink_links)
    have b: "distinct (map linkKey (displayedLinks s2))"
      using 3(1) [OF True s1_def _ a] a by (auto simp: s2_def)
    have c: "distinct (map linkKey (displayedLinks (expandRelations nodeId depth rest s2)))"
      using 3(2) [OF True s1_def s2_def b] .
    have "expandRelations nodeId depth (relation # rest) s = expandRelations nodeId depth rest s2"
      using True by (simp add: expandRelations.simps Let_def s1_def s2_def)
    with c show ?thesis by simp
  qed
qed

lemma expand_displayed_distinct:
  "distinct (displayedNodes s) \<Longrightarrow> distinct (displayedNodes (expandNode nodeId depth s))"
  "distinct (displayedNodes s) \<Longrightarrow> distinct (displayedNodes (expandRelations nodeId depth rels s))"
proof (induction nodeId depth s and nodeId depth rels s rule: expandNode_expandRelations.induct)
  case (1 nodeId depth s)
  then show ?case
    by (auto simp: expandNode.simps addDisplayed_distinct split: option.splits)
next
  case (2 nodeId depth s)
  then show ?case by (simp add: expandRelations.simps)
next
  case (3 nodeId depth relation rest s)
  show ?case
  proof (cases "map_has (nodes s) (r_target relation)")
    case False
    with 3 show ?thesis by (simp add: expandRelations.simps)
  next
    case True
    define s1 where "s1 = ensureLink nodeId relation s"
    define s2 where "s2 = (if \<not> set_has (displayedNodes s1) (r_target relation)
               then expandNode (r_target relation) (depth - 1) s1 else s1)"
    have a: "distinct (displayedNodes s1)"
      using 3(4) by (simp add: s1_def)
    have b: "distinct (displayedNodes s2)"
      using 3(1) [OF True s1_def _ a] a by (auto simp: s2_def)
    have c: "distinct (displayedNodes (expandRelations nodeId depth rest s2))"
      using 3(2) [OF True s1_def s2_def b] .
    have "expandRelations nodeId depth (relation # rest) s = expandRelations nodeId depth rest s2"
      using True by (simp add: expandRelations.simps Let_def s1_def s2_def)
    with c show ?thesis by simp
  qed
qed

text \<open>
  \<open>expandNode\<close> checks \<open>state.nodes.has\<close> before every addition: displayed ids that
  are keys of the node map stay so.
\<close>

lemma expand_displayed_known:
  "set (displayedNodes s) \<subseteq> fst ` set (nodes s) \<Longrightarrow>
   set (displayedNodes (expandNode nodeId depth s)) \<subseteq> fst ` set (nodes s)"
  "set (displayedNodes s) \<subseteq> fst ` set (nodes s) \<Longrightarrow>
   set (displayedNodes (expandRelations nodeId depth rels s)) \<subseteq> fst ` set (nodes s)"
proof (induction nodeId depth s and nodeId depth rels s rule: expandNode_expandRelations.induct)
  case (1 nodeId depth s)
  show ?case
  proof (cases "map_of (nodes s) nodeId")
    case None
    with 1(2) show ?thesis by (simp add: expandNode.simps)
  next
    case (Some node)
    then have "nodeId \<in> fst ` set (nodes s)"
      by (metis map_has_def map_has_keys option.distinct(1))
    with 1(2) have "set (displayedNodes (addDisplayed nodeId s)) \<subseteq> fst ` set (nodes (addDisplayed nodeId s))"
      by simp
    with 1(1) [OF Some] Some show ?thesis
      by (cases "depth \<le> 0") (simp_all add: expandNode.simps)
  qed
next
  case (2 nodeId depth s)
  then show ?case by (simp add: expandRelations.simps)
next
  case (3 nodeId depth relation rest s)
  show ?case
  proof (cases "map_has (nodes s) (r_target relation)")
    case False
    with 3 show ?thesis by (simp add: expandRelations.simps)
  next
    case True
    define s1 where "s1 = ensureLink nodeId relation s"
    define s2 where "s2 = (if \<not> set_has (displayedNodes s1) (r_target relation)
               then expandNode (r_target relation) (depth - 1) s1 else s1)"
    have a: "set (displayedNodes s1) \<subseteq> fst ` set (nodes s1)"
      using 3(4) by (simp add: s1_def)
    have n2: "nodes s2 = nodes s"
      by (simp add: s2_def s1_def expand_nodes)
    have b: "set (displayedNodes s2) \<subseteq> fst ` set (nodes s2)"
      using 3(1) [OF True s1_def _ a] a by (auto simp: s2_def expand_nodes)
    have c: "set (displayedNodes (expandRelations nodeId depth rest s2)) \<subseteq> fst ` set (nodes s2)"
      using 3(2) [OF True s1_def s2_def b] .
    have "expandRelations nodeId depth (relation # rest) s = expandRelations nodeId depth rest s2"
      using True by (simp add: expandRelations.simps Let_def s1_def s2_def)
    with c n2 show ?thesis by simp
  qed
qed

lemma expandRelations_registers:
  "r \<in> set rels \<Longrightarrow> map_has (nodes s) (r_target r) \<Longrightarrow>
   (nodeId, r_target r, r_property r)
     \<in> linkKey ` set (displayedLinks (expandRelations nodeId depth rels s))"
proof (induction rels arbitrary: s)
  case Nil
  then show ?case by simp
next
  case (Cons relation rest)
  define s2 where "s2 = (if \<not> set_has (displayedNodes s) (r_target relation)
           then expandNode (r_target relation) (depth - 1) (ensureLink nodeId relation s)
           else ensureLink nodeId relation s)"
  have nodes2: "nodes s2 = nodes s"
    by (simp add: s2_def expand_nodes)
  show ?case
  proof (cases "map_has (nodes s) (r_target relation)")
    case False
    with Cons have "r \<in> set rest" by auto
    from Cons.IH [OF this Cons.prems(2)] False show ?thesis
      by (simp add: expandRelations_Cons)
  next
    case True
    have step: "expandRelations nodeId depth (relation # rest) s = expandRelations nodeId depth rest s2"
      using True by (simp add: expandRelations_Cons s2_def)
    show ?thesis
    proof (cases "r = relation")
      case True
      have "(nodeId, r_target r, r_property r) \<in> linkKey ` set (displayedLinks (ensureLink nodeId relation s))"
        using True by (auto simp: ensureLink_links)
      then have "(nodeId, r_target r, r_property r) \<in> linkKey ` set (displayedLinks s2)"
        using expand_links_mono(1) [of "ensureLink nodeId relation s" "r_target relation" "depth - 1"]
        by (auto simp: s2_def)
      then show ?thesis
        using expand_links_mono(2) [of s2 nodeId depth rest] by (auto simp: step)
    next
      case False
      with Cons have "r \<in> set rest" by auto
      from Cons.IH [OF this, of s2] Cons.prems(2) show ?thesis
        by (simp add: step nodes2)
    qed
  qed
qed

lemma filter_unique:
  "distinct (map f xs) \<Longrightarrow> k \<in> f ` set xs \<Longrightarrow> length (filter (\<lambda>x. f x = k) xs) = 1"
proof (induction xs)
  case Nil
  then show ?case by simp
next
  case (Cons x xs)
  show ?case
  proof (cases "f x = k")
    case True
    have "f x \<notin> f ` set xs"
      using Cons.prems(1) by simp
    then have "\<forall>y \<in> set xs. f y \<noteq> k"
      using True by (auto simp: image_iff)
    then have "filter (\<lambda>x. f x = k) xs = []"
      by (simp add: filter_empty_conv)
    with True show ?thesis by simp
  next
    case False
    with Cons show ?thesis by auto
  qed
qed

lemma self_reference_once:
  assumes "map_of (nodes s) nodeId = Some node"
    and "r \<in> set (n_relations node)"
    and "r_target r = nodeId"
    and "1 \<le> depth"
    and "distinct (map linkKey (displayedLinks s))"
  shows "length (filter (\<lambda>l. l_source l = nodeId \<and> l_target l = nodeId
                              \<and> l_property l = r_property r)
                  (displayedLinks (expandNode nodeId depth s))) = 1"
proof -
  have e: "expandNode nodeId depth s
             = expandRelations nodeId depth (n_relations node) (addDisplayed nodeId s)"
    using assms(1,4) by (simp add: expandNode.simps)
  have has: "map_has (nodes (addDisplayed nodeId s)) (r_target r)"
    using assms(1,3) by (simp add: map_has_def)
  have "(nodeId, nodeId, r_property r) \<in> linkKey ` set (displayedLinks (expandNode nodeId depth s))"
    using expandRelations_registers [OF assms(2) has, of nodeId depth] assms(3) by (simp add: e)
  moreover have "distinct (map linkKey (displayedLinks (expandNode nodeId depth s)))"
    using assms(5) by (rule expand_keys_distinct)
  ultimately have "length (filter (\<lambda>l. linkKey l = (nodeId, nodeId, r_property r))
                  (displayedLinks (expandNode nodeId depth s))) = 1"
    by (rule filter_unique [rotated])
  then show ?thesis by (simp add: linkKey_def)
qed

text \<open>
  Claim C5. Take any node map, a node in it with a relation whose target is the node
  itself, any depth of at least 1, and a state in which no two displayed links share
  source, target and property (the empty displayed state of \<open>initializeGraph\<close> is one).
  Then the recursion of \<open>expandNode\<close> on this input terminates, and afterwards exactly
  one displayed link has this node as source and target and the relation's property.
  When the loop reaches the self-referencing relation with the node already displayed,
  it makes the link check and goes on to the next relation without a recursive call.
\<close>

theorem expandNode_self_reference:
  assumes "map_of (nodes s) nodeId = Some node"
    and "r \<in> set (n_relations node)"
    and "r_target r = nodeId"
    and "1 \<le> depth"
    and "distinct (map linkKey (displayedLinks s))"
  shows "expandNode_expandRelations_dom (Inl (nodeId, depth, s))
    \<and> length (filter (\<lambda>l. l_source l = nodeId \<and> l_target l = nodeId
                              \<and> l_property l = r_property r)
                (displayedLinks (expandNode nodeId depth s))) = 1
    \<and> expandRelations nodeId depth (r # rest)
          (addDisplayed nodeId (s\<lparr>displayedNodes := shown, displayedLinks := links\<rparr>))
        = expandRelations nodeId depth rest
            (ensureLink nodeId r
              (addDisplayed nodeId (s\<lparr>displayedNodes := shown, displayedLinks := links\<rparr>)))"
proof -
  define s' where "s' = addDisplayed nodeId (s\<lparr>displayedNodes := shown, displayedLinks := links\<rparr>)"
  have "set_has (displayedNodes s') nodeId"
    by (simp add: set_has_def s'_def)
  moreover have "map_has (nodes s') nodeId"
    using assms(1) by (simp add: map_has_def s'_def)
  ultimately have "expandRelations nodeId depth (r # rest) s'
        = expandRelations nodeId depth rest (ensureLink nodeId r s')"
    using assms(3) by (simp add: expandRelations_Cons)
  with self_reference_once [OF assms] expand_terminates show ?thesis
    by (simp add: s'_def)
qed

theorem expandNode_self_reference_witness:
  "map_of (nodes parsedState) ''Package'' = Some examplePackage
   \<and> partOfRelation \<in> set (n_relations examplePackage)
   \<and> r_target partOfRelation = ''Package''
   \<and> (1::int) \<le> 3
   \<and> distinct (map linkKey (displayedLinks parsedState))
   \<and> expandNode_expandRelations_dom (Inl (''Package'', 3, parsedState))
   \<and> length (filter (\<lambda>l. l_source l = ''Package'' \<and> l_target l = ''Package''
                              \<and> l_property l = r_property partOfRelation)
                (displayedLinks (expandNode ''Package'' 3 parsedState))) = 1
   \<and> expandRelations ''Package'' 3 [partOfRelation]
          (addDisplayed ''Package'' (parsedState\<lparr>displayedNodes := [], displayedLinks := []\<rparr>))
        = expandRelations ''Package'' 3 []
            (ensureLink ''Package'' partOfRelation
              (addDisplayed ''Package'' (parsedState\<lparr>displayedNodes := [], displayedLinks := []\<rparr>)))"
proof -
  have h1: "map_of (nodes parsedState) ''Package'' = Some examplePackage"
    by code_simp
  have h2: "partOfRelation \<in> set (n_relations examplePackage)"
    by code_simp
  have h3: "r_target partOfRelation = ''Package''"
    by code_simp
  have h4: "(1::int) \<le> 3"
    by simp
  have h5: "distinct (map linkKey (displayedLinks parsedState))"
    by code_simp
  from expandNode_self_reference [OF h1 h2 h3 h4 h5, of "[]" "[]" "[]"] h1 h2 h3 h4 h5
  show ?thesis by blast
qed

lemma expandNode_zero:
  "map_of (nodes s) nodeId = Some node \<Longrightarrow> expandNode nodeId 0 s = addDisplayed nodeId s"
  by (simp add: expandNode.simps)

lemma expandNode_zero_known:
  "map_has (nodes s) nodeId \<Longrightarrow> expandNode nodeId 0 s = addDisplayed nodeId s"
  by (auto simp: map_has_def expandNode.simps)

lemma depth_one_loop:
  "set (displayedNodes (expandRelations nodeId 1 rels s))
     = set (displayedNodes s) \<union> {r_target r | r. r \<in> set rels \<and> map_has (nodes s) (r_target r)}
   \<and> linkKey ` set (displayedLinks (expandRelations nodeId 1 rels s))
     = linkKey ` set (displayedLinks s)
       \<union> {(nodeId, r_target r, r_property r) | r. r \<in> set rels \<and> map_has (nodes s) (r_target r)}"
proof (induction rels arbitrary: s)
  case Nil
  then show ?case by (simp add: expandRelations.simps)
next
  case (Cons relation rest)
  show ?case
  proof (cases "map_has (nodes s) (r_target relation)")
    case False
    with Cons [of s] show ?thesis
      by (auto simp: expandRelations_Cons)
  next
    case True
    define s2 where "s2 = (if \<not> set_has (displayedNodes s) (r_target relation)
           then expandNode (r_target relation) (1 - 1) (ensureLink nodeId relation s)
           else ensureLink nodeId relation s)"
    have step: "expandRelations nodeId 1 (relation # rest) s = expandRelations nodeId 1 rest s2"
      using True by (simp add: expandRelations_Cons s2_def)
    have n2: "nodes s2 = nodes s"
      by (simp add: s2_def expand_nodes)
    have d2: "set (displayedNodes s2) = insert (r_target relation) (set (displayedNodes s))"
      using True by (auto simp: s2_def expandNode_zero_known set_has_def)
    have l2: "linkKey ` set (displayedLinks s2)
        = insert (nodeId, r_target relation, r_property relation) (linkKey ` set (displayedLinks s))"
      using True by (auto simp: s2_def expandNode_zero_known ensureLink_links)
    from Cons [of s2] True show ?thesis
      unfolding step n2 d2 l2 by auto
  qed
qed

lemma depth_one_sources:
  "l_source ` set (displayedLinks (expandRelations nodeId 1 rels s))
     \<subseteq> insert nodeId (l_source ` set (displayedLinks s))"
proof -
  have "fst ` linkKey ` set (displayedLinks (expandRelations nodeId 1 rels s))
     \<subseteq> insert nodeId (fst ` linkKey ` set (displayedLinks s))"
    unfolding depth_one_loop [THEN conjunct2] by auto
  then show ?thesis
    by (simp add: image_image linkKey_def)
qed

lemma distinct_pairs_of_keys:
  assumes "distinct (map linkKey ls)" and "l_source ` set ls \<subseteq> {a}"
  shows "distinct (map (\<lambda>l. (l_target l, l_property l)) ls)"
proof -
  have "\<forall>l \<in> set ls. linkKey l = (a, l_target l, l_property l)"
    using assms(2) by (auto simp: linkKey_def)
  then have eq: "map linkKey ls = map (\<lambda>l. (a, l_target l, l_property l)) ls"
    by (intro map_cong) simp_all
  have "distinct (map (\<lambda>l. (a, l_target l, l_property l)) ls)"
    using assms(1) unfolding eq .
  then show ?thesis
    by (auto simp: distinct_map inj_on_def)
qed

text \<open>
  Claim C3. For every schema document parsed by \<open>parseSchema\<close> and every node of the
  resulting map, starting with nothing displayed: \<open>expandNode\<close> with depth 0 displays
  exactly that node and no link; with depth 1 it displays, without repetition, the node
  and exactly the targets of its relations, and the displayed links all start at the
  node and correspond one to one to the different (target, property) pairs among its
  relations.
\<close>

theorem expandNode_depth_zero_one:
  assumes "map_of (parseSchema schema schemaName) rootId = Some rootNode"
  shows "let s0 = s\<lparr>nodes := parseSchema schema schemaName,
                    displayedNodes := [], displayedLinks := []\<rparr>;
             s1 = expandNode rootId 1 s0
         in displayedNodes (expandNode rootId 0 s0) = [rootId]
          \<and> displayedLinks (expandNode rootId 0 s0) = []
          \<and> set (displayedNodes s1) = insert rootId (r_target ` set (n_relations rootNode))
          \<and> distinct (displayedNodes s1)
          \<and> l_source ` set (displayedLinks s1) \<subseteq> {rootId}
          \<and> (\<lambda>l. (l_target l, l_property l)) ` set (displayedLinks s1)
              = (\<lambda>r. (r_target r, r_property r)) ` set (n_relations rootNode)
          \<and> distinct (map (\<lambda>l. (l_target l, l_property l)) (displayedLinks s1))"
proof -
  define s0 where "s0 = s\<lparr>nodes := parseSchema schema schemaName,
                    displayedNodes := [], displayedLinks := []\<rparr>"
  define s1 where "s1 = expandNode rootId 1 s0"
  have root: "map_of (nodes s0) rootId = Some rootNode"
    using assms by (simp add: s0_def)
  have known: "map_has (nodes s0) (r_target r)" if "r \<in> set (n_relations rootNode)" for r
    using parseSchema_targets_known [OF map_of_SomeD [OF assms] that] by (simp add: s0_def)
  have zero: "expandNode rootId 0 s0 = addDisplayed rootId s0"
    using root by (rule expandNode_zero)
  have one: "s1 = expandRelations rootId 1 (n_relations rootNode) (addDisplayed rootId s0)"
    using root by (simp add: s1_def expandNode.simps)
  have start_nodes: "displayedNodes (addDisplayed rootId s0) = [rootId]"
    by (simp add: addDisplayed_def set_add_def s0_def)
  have start_links: "displayedLinks s0 = []"
    by (simp add: s0_def)
  have dn: "set (displayedNodes s1) = insert rootId (r_target ` set (n_relations rootNode))"
    unfolding one depth_one_loop [THEN conjunct1] using known by (auto simp: start_nodes)
  have keys: "linkKey ` set (displayedLinks s1)
      = {(rootId, r_target r, r_property r) | r. r \<in> set (n_relations rootNode)}"
    unfolding one depth_one_loop [THEN conjunct2] using known by (auto simp: start_links)
  have src: "l_source ` set (displayedLinks s1) \<subseteq> {rootId}"
    unfolding one using depth_one_sources [of rootId "n_relations rootNode" "addDisplayed rootId s0"]
    by (simp add: start_links)
  have "snd ` linkKey ` set (displayedLinks s1)
      = snd ` {(rootId, r_target r, r_property r) | r. r \<in> set (n_relations rootNode)}"
    by (simp only: keys)
  then have pairs: "(\<lambda>l. (l_target l, l_property l)) ` set (displayedLinks s1)
              = (\<lambda>r. (r_target r, r_property r)) ` set (n_relations rootNode)"
    by (auto simp: image_image linkKey_def image_iff)
  have "distinct (map linkKey (displayedLinks s1))"
    unfolding s1_def by (rule expand_keys_distinct) (simp add: s0_def)
  then have dl: "distinct (map (\<lambda>l. (l_target l, l_property l)) (displayedLinks s1))"
    using src by (rule distinct_pairs_of_keys)
  have dd: "distinct (displayedNodes s1)"
    unfolding s1_def by (rule expand_displayed_distinct) (simp add: s0_def)
  show ?thesis
    unfolding Let_def s0_def [symmetric] s1_def [symmetric]
    using zero start_nodes start_links dn dd src pairs dl by simp
qed

theorem expandNode_depth_zero_one_witness:
  "map_of (parseSchema exampleSchema ''Document'') ''Package'' = Some examplePackage
   \<and> (let s0 = initialState\<lparr>nodes := parseSchema exampleSchema ''Document'',
                    displayedNodes := [], displayedLinks := []\<rparr>;
             s1 = expandNode ''Package'' 1 s0
         in displayedNodes (expandNode ''Package'' 0 s0) = [''Package'']
          \<and> displayedLinks (expandNode ''Package'' 0 s0) = []
          \<and> set (displayedNodes s1) = insert ''Package'' (r_target ` set (n_relations examplePackage))
          \<and> distinct (displayedNodes s1)
          \<and> l_source ` set (displayedLinks s1) \<subseteq> {''Package''}
          \<and> (\<lambda>l. (l_target l, l_property l)) ` set (displayedLinks s1)
              = (\<lambda>r. (r_target r, r_property r)) ` set (n_relations examplePackage)
          \<and> distinct (map (\<lambda>l. (l_target l, l_property l)) (displayedLinks s1)))
   \<and> displayedNodes (expandNode ''Package'' 1 parsedState) = [''Package'', ''PackageLink'']
   \<and> map l_id (displayedLinks (expandNode ''Package'' 1 parsedState))
       = [''Package-PackageLink-packageLinks'', ''Package-Package-partOfPackage'']"
proof -
  have h: "map_of (parseSchema exampleSchema ''Document'') ''Package'' = Some examplePackage"
    by code_simp
  have v1: "displayedNodes (expandNode ''Package'' 1 parsedState) = [''Package'', ''PackageLink'']"
    by code_simp
  have v2: "map l_id (displayedLinks (expandNode ''Package'' 1 parsedState))
       = [''Package-PackageLink-packageLinks'', ''Package-Package-partOfPackage'']"
    by code_simp
  from expandNode_depth_zero_one [OF h, of initialState] h v1 v2
  show ?thesis by blast
qed

section \<open>Reverse links\<close>

lemma reverseFrom_set:
  "set (reverseFrom nodeId ns) =
     {reverseOf sourceId sourceNode r | sourceId sourceNode r.
        (sourceId, sourceNode) \<in> set ns \<and> sourceId \<noteq> nodeId
        \<and> r \<in> set (n_relations sourceNode) \<and> r_target r = nodeId}"
proof (induction nodeId ns rule: reverseFrom.induct)
  case (1 nodeId)
  then show ?case by simp
next
  case (2 nodeId sourceId sourceNode rest)
  then show ?case by (cases "sourceId = nodeId") auto
qed

lemma addReverseLinks_result:
  "\<exists>added.
     addReverseLinks nodeId vs (s, b)
       = (s\<lparr>displayedLinks := displayedLinks s @ added\<rparr>, b \<or> added \<noteq> [])
     \<and> (\<forall>l \<in> set added. \<exists>v \<in> set vs.
            l = reverseLink nodeId v \<and> v_source v \<in> set (displayedNodes s)
            \<and> l_id l \<notin> l_id ` set (displayedLinks s))
     \<and> (\<forall>v \<in> set vs. v_source v \<in> set (displayedNodes s) \<longrightarrow>
            compositeId (v_source v) nodeId (v_property v)
              \<in> l_id ` set (displayedLinks s @ added))"
proof (induction vs arbitrary: s b)
  case Nil
  show ?case by (rule exI [of _ "[]"]) simp
next
  case (Cons v rest)
  let ?cid = "compositeId (v_source v) nodeId (v_property v)"
  consider (hidden) "v_source v \<notin> set (displayedNodes s)"
    | (present) "v_source v \<in> set (displayedNodes s)" "?cid \<in> l_id ` set (displayedLinks s)"
    | (absent) "v_source v \<in> set (displayedNodes s)" "?cid \<notin> l_id ` set (displayedLinks s)"
    by blast
  then show ?case
  proof cases
    case hidden
    from Cons [of s b] obtain added where
      a: "addReverseLinks nodeId rest (s, b)
            = (s\<lparr>displayedLinks := displayedLinks s @ added\<rparr>, b \<or> added \<noteq> [])"
      and n: "\<forall>l \<in> set added. \<exists>v \<in> set rest.
            l = reverseLink nodeId v \<and> v_source v \<in> set (displayedNodes s)
            \<and> l_id l \<notin> l_id ` set (displayedLinks s)"
      and c: "\<forall>v \<in> set rest. v_source v \<in> set (displayedNodes s) \<longrightarrow>
            compositeId (v_source v) nodeId (v_property v)
              \<in> l_id ` set (displayedLinks s @ added)"
      by blast
    have "addReverseLinks nodeId (v # rest) (s, b) = addReverseLinks nodeId rest (s, b)"
      using hidden by (simp add: set_has_def)
    with a n c hidden show ?thesis
      by (intro exI [of _ added]) auto
  next
    case present
    from Cons [of s b] obtain added where
      a: "addReverseLinks nodeId rest (s, b)
            = (s\<lparr>displayedLinks := displayedLinks s @ added\<rparr>, b \<or> added \<noteq> [])"
      and n: "\<forall>l \<in> set added. \<exists>v \<in> set rest.
            l = reverseLink nodeId v \<and> v_source v \<in> set (displayedNodes s)
            \<and> l_id l \<notin> l_id ` set (displayedLinks s)"
      and c: "\<forall>v \<in> set rest. v_source v \<in> set (displayedNodes s) \<longrightarrow>
            compositeId (v_source v) nodeId (v_property v)
              \<in> l_id ` set (displayedLinks s @ added)"
      by blast
    have "find (\<lambda>l. l_id l = ?cid) (displayedLinks s) \<noteq> None"
      using present(2) by (simp add: find_None_ids)
    then have "addReverseLinks nodeId (v # rest) (s, b) = addReverseLinks nodeId rest (s, b)"
      using present(1) by (auto simp: set_has_def)
    with a n c present show ?thesis
      by (intro exI [of _ added]) auto
  next
    case absent
    define l where "l = reverseLink nodeId v"
    define s1 where "s1 = pushLink l s"
    have lid: "l_id l = ?cid"
      by (simp add: l_def reverseLink_def)
    from Cons [of s1 True] obtain added where
      a: "addReverseLinks nodeId rest (s1, True)
            = (s1\<lparr>displayedLinks := displayedLinks s1 @ added\<rparr>, True \<or> added \<noteq> [])"
      and n: "\<forall>l \<in> set added. \<exists>v \<in> set rest.
            l = reverseLink nodeId v \<and> v_source v \<in> set (displayedNodes s1)
            \<and> l_id l \<notin> l_id ` set (displayedLinks s1)"
      and c: "\<forall>v \<in> set rest. v_source v \<in> set (displayedNodes s1) \<longrightarrow>
            compositeId (v_source v) nodeId (v_property v)
              \<in> l_id ` set (displayedLinks s1 @ added)"
      by blast
    have "find (\<lambda>l. l_id l = ?cid) (displayedLinks s) = None"
      using absent(2) by (simp add: find_None_ids)
    then have step: "addReverseLinks nodeId (v # rest) (s, b) = addReverseLinks nodeId rest (s1, True)"
      using absent(1) by (simp add: set_has_def s1_def l_def)
    have eq: "addReverseLinks nodeId (v # rest) (s, b)
        = (s\<lparr>displayedLinks := displayedLinks s @ (l # added)\<rparr>, b \<or> l # added \<noteq> [])"
      unfolding step a by (simp add: s1_def pushLink_def)
    have n': "\<forall>l' \<in> set (l # added). \<exists>v' \<in> set (v # rest).
            l' = reverseLink nodeId v' \<and> v_source v' \<in> set (displayedNodes s)
            \<and> l_id l' \<notin> l_id ` set (displayedLinks s)"
      using n absent lid by (auto simp: s1_def l_def)
    have c': "\<forall>v' \<in> set (v # rest). v_source v' \<in> set (displayedNodes s) \<longrightarrow>
            compositeId (v_source v') nodeId (v_property v')
              \<in> l_id ` set (displayedLinks s @ (l # added))"
      using c lid by (auto simp: s1_def)
    from eq n' c' show ?thesis
      by (intro exI [of _ "l # added"]) blast
  qed
qed

text \<open>
  Claim C8, as stated, fails: \<open>getReverseRelations\<close> skips the node itself. In the
  example state \<open>Package\<close> is displayed and has a relation to itself whose link is not
  displayed, yet \<open>autoAddReverseLinks\<close> on \<open>Package\<close> considers only the relation from
  \<open>Document\<close>, adds nothing and returns false.
\<close>

theorem autoAddReverseLinks_self_counterexample:
  "map_of (nodes exampleState) ''Package'' = Some examplePackage
   \<and> partOfRelation \<in> set (n_relations examplePackage)
   \<and> r_target partOfRelation = ''Package''
   \<and> ''Package'' \<in> set (displayedNodes exampleState)
   \<and> compositeId ''Package'' ''Package'' (r_property partOfRelation)
        \<notin> l_id ` set (displayedLinks exampleState)
   \<and> map v_source (getReverseRelations ''Package'' exampleState) = [''Document'']
   \<and> displayedLinks (fst (autoAddReverseLinks ''Package'' exampleState))
        = displayedLinks exampleState
   \<and> snd (autoAddReverseLinks ''Package'' exampleState) = False"
  by code_simp

text \<open>
  Claim C8, amended. For every state and node id, the reverse relations considered by
  \<open>autoAddReverseLinks\<close> are those of all nodes other than the node itself whose
  relations target it. The call appends links and changes nothing else; every appended
  link is the link of such a relation whose source is displayed and whose composite id
  no displayed link had; afterwards every such relation with a displayed source has a
  displayed link with its composite id; and the returned flag is true exactly when a
  link was appended.
\<close>

theorem autoAddReverseLinks_other_sources:
  "autoAddReverseLinks nodeId s = (s', addedLinks) \<Longrightarrow>
   (v \<in> set (getReverseRelations nodeId s) \<longleftrightarrow>
      (\<exists>sourceId sourceNode r.
         (sourceId, sourceNode) \<in> set (nodes s) \<and> sourceId \<noteq> nodeId
         \<and> r \<in> set (n_relations sourceNode) \<and> r_target r = nodeId
         \<and> v = reverseOf sourceId sourceNode r))
   \<and> (\<exists>added.
         s' = s\<lparr>displayedLinks := displayedLinks s @ added\<rparr>
         \<and> addedLinks = (added \<noteq> [])
         \<and> (\<forall>l \<in> set added. \<exists>w \<in> set (getReverseRelations nodeId s).
               l = reverseLink nodeId w \<and> v_source w \<in> set (displayedNodes s)
               \<and> l_id l \<notin> l_id ` set (displayedLinks s)))
   \<and> (v \<in> set (getReverseRelations nodeId s) \<and> v_source v \<in> set (displayedNodes s) \<longrightarrow>
         compositeId (v_source v) nodeId (v_property v) \<in> l_id ` set (displayedLinks s'))"
proof -
  assume call: "autoAddReverseLinks nodeId s = (s', addedLinks)"
  from addReverseLinks_result [of nodeId "getReverseRelations nodeId s" s False]
  obtain added where
    a: "addReverseLinks nodeId (getReverseRelations nodeId s) (s, False)
          = (s\<lparr>displayedLinks := displayedLinks s @ added\<rparr>, False \<or> added \<noteq> [])"
    and n: "\<forall>l \<in> set added. \<exists>w \<in> set (getReverseRelations nodeId s).
          l = reverseLink nodeId w \<and> v_source w \<in> set (displayedNodes s)
          \<and> l_id l \<notin> l_id ` set (displayedLinks s)"
    and c: "\<forall>w \<in> set (getReverseRelations nodeId s). v_source w \<in> set (displayedNodes s) \<longrightarrow>
          compositeId (v_source w) nodeId (v_property w)
            \<in> l_id ` set (displayedLinks s @ added)"
    by blast
  from call a have s': "s' = s\<lparr>displayedLinks := displayedLinks s @ added\<rparr>"
    and flag: "addedLinks = (added \<noteq> [])"
    by (simp_all add: autoAddReverseLinks_def)
  have sources: "v \<in> set (getReverseRelations nodeId s) \<longleftrightarrow>
      (\<exists>sourceId sourceNode r.
         (sourceId, sourceNode) \<in> set (nodes s) \<and> sourceId \<noteq> nodeId
         \<and> r \<in> set (n_relations sourceNode) \<and> r_target r = nodeId
         \<and> v = reverseOf sourceId sourceNode r)"
    by (auto simp: getReverseRelations_def reverseFrom_set)
  have covered: "v \<in> set (getReverseRelations nodeId s) \<and> v_source v \<in> set (displayedNodes s) \<longrightarrow>
         compositeId (v_source v) nodeId (v_property v) \<in> l_id ` set (displayedLinks s')"
    using c by (simp add: s')
  from sources s' flag n covered show ?thesis
    by blast
qed

theorem autoAddReverseLinks_other_sources_witness:
  "autoAddReverseLinks ''PackageLink'' exampleShown
     = (pushLink (reverseLink ''PackageLink'' exampleReverse) exampleShown, True)
   \<and> exampleReverse \<in> set (getReverseRelations ''PackageLink'' exampleShown)
   \<and> v_source exampleReverse \<in> set (displayedNodes exampleShown)
   \<and> (''Package'', examplePackage) \<in> set (nodes exampleShown)
   \<and> ''Package'' \<noteq> ''PackageLink''
   \<and> packageLinksRelation \<in> set (n_relations examplePackage)
   \<and> r_target packageLinksRelation = ''PackageLink''
   \<and> compositeId (v_source exampleReverse) ''PackageLink'' (v_property exampleReverse)
        \<in> l_id ` set (displayedLinks (pushLink (reverseLink ''PackageLink'' exampleReverse) exampleShown))
   \<and> compositeId (v_source exampleReverse) ''PackageLink'' (v_property exampleReverse)
        = ''Package-PackageLink-packageLinks''"
proof -
  have call: "autoAddReverseLinks ''PackageLink'' exampleShown
     = (pushLink (reverseLink ''PackageLink'' exampleReverse) exampleShown, True)"
    by code_simp
  have h1: "(''Package'', examplePackage) \<in> set (nodes exampleShown)"
    by code_simp
  have h2: "packageLinksRelation \<in> set (n_relations examplePackage)"
    by code_simp
  have h3: "r_target packageLinksRelation = ''PackageLink''"
    by code_simp
  have h4: "v_source exampleReverse \<in> set (displayedNodes exampleShown)"
    by code_simp
  have h5: "compositeId (v_source exampleReverse) ''PackageLink'' (v_property exampleReverse)
        = ''Package-PackageLink-packageLinks''"
    by code_simp
  have h6: "''Package'' \<noteq> ''PackageLink''"
    by simp
  note spec = autoAddReverseLinks_other_sources [OF call, of exampleReverse]
  from spec h1 h2 h3 h6 have member: "exampleReverse \<in> set (getReverseRelations ''PackageLink'' exampleShown)"
    unfolding exampleReverse_def by blast
  with spec h4 have "compositeId (v_source exampleReverse) ''PackageLink'' (v_property exampleReverse)
        \<in> l_id ` set (displayedLinks (pushLink (reverseLink ''PackageLink'' exampleReverse) exampleShown))"
    by blast
  with call member h1 h2 h3 h4 h5 h6 show ?thesis
    by blast
qed

section \<open>Link checks by composite id\<close>

text \<open>
  \<open>autoAddReverseLinks\<close> and \<open>autoAddForwardLinks\<close> look for an existing link by its
  composite id, so they never push an id that is already displayed: link ids that are
  pairwise different stay so.
\<close>

lemma addReverseLinks_ids_distinct:
  "distinct (map l_id (displayedLinks s)) \<Longrightarrow>
   distinct (map l_id (displayedLinks (fst (addReverseLinks nodeId vs (s, b)))))"
proof (induction vs arbitrary: s b)
  case Nil
  then show ?case by simp
next
  case (Cons v rest)
  show ?case
  proof (cases "set_has (displayedNodes s) (v_source v)
      \<and> find (\<lambda>l. l_id l = compositeId (v_source v) nodeId (v_property v)) (displayedLinks s) = None")
    case True
    then have "compositeId (v_source v) nodeId (v_property v) \<notin> l_id ` set (displayedLinks s)"
      by (simp add: find_None_ids)
    with Cons.prems have "distinct (map l_id (displayedLinks (pushLink (reverseLink nodeId v) s)))"
      by (simp add: reverseLink_def)
    from Cons.IH [OF this, of True] True show ?thesis
      by simp
  next
    case False
    with Cons.IH [OF Cons.prems, of b] show ?thesis
      by (auto split: option.splits)
  qed
qed

lemma addForwardLinks_ids_distinct:
  "distinct (map l_id (displayedLinks s)) \<Longrightarrow>
   distinct (map l_id (displayedLinks (fst (addForwardLinks nodeId rels (s, b)))))"
proof (induction rels arbitrary: s b)
  case Nil
  then show ?case by simp
next
  case (Cons r rest)
  show ?case
  proof (cases "set_has (displayedNodes s) (r_target r)
      \<and> find (\<lambda>l. l_id l = compositeId nodeId (r_target r) (r_property r)) (displayedLinks s) = None")
    case True
    then have "compositeId nodeId (r_target r) (r_property r) \<notin> l_id ` set (displayedLinks s)"
      by (simp add: find_None_ids)
    with Cons.prems have "distinct (map l_id (displayedLinks (pushLink (relationLink nodeId r) s)))"
      by (simp add: relationLink_def)
    from Cons.IH [OF this, of True] True show ?thesis
      by simp
  next
    case False
    with Cons.IH [OF Cons.prems, of b] show ?thesis
      by (auto split: option.splits)
  qed
qed

lemma autoAdd_ids_distinct:
  assumes "distinct (map l_id (displayedLinks s))"
  shows "distinct (map l_id (displayedLinks (fst (autoAddReverseLinks nodeId s))))"
    and "distinct (map l_id (displayedLinks (fst (autoAddForwardLinks nodeId s))))"
  using assms
  by (auto simp: autoAddReverseLinks_def autoAddForwardLinks_def
        addReverseLinks_ids_distinct addForwardLinks_ids_distinct split: option.splits)

section \<open>Inputs on which the code breaks its invariants\<close>

text \<open>
  Claim C4 at a concrete input. In the schema with the definitions \<open>A-B\<close>, \<open>A\<close> and
  \<open>B\<close>, \<open>expandNode\<close> on \<open>A-B\<close> with depth 2 pushes the link of \<open>A-B\<close> to \<open>A\<close>
  by \<open>p\<close> and the link of \<open>A\<close> to \<open>B\<close> by \<open>A-p\<close>. They differ in source, target
  and property, which is what \<open>expandNode\<close> compares, and both get the composite id
  \<open>A-B-A-p\<close>. A second call with the same arguments leaves both in place.
\<close>

theorem expandNode_duplicate_composite_id:
  "map linkKey (displayedLinks (expandNode ''A-B'' 2 hyphenState))
     = [(''A-B'', ''A'', ''p''), (''A'', ''B'', ''A-p'')]
   \<and> map l_id (displayedLinks (expandNode ''A-B'' 2 hyphenState)) = [''A-B-A-p'', ''A-B-A-p'']
   \<and> length (filter (\<lambda>l. l_id l = ''A-B-A-p'')
               (displayedLinks (expandNode ''A-B'' 2 (expandNode ''A-B'' 2 hyphenState)))) = 2"
  by code_simp

text \<open>
  Claim C7 at two concrete inputs. Loading the example schema with the URL parameter
  \<open>link=Vendor-Team-owner\<close> adds \<open>Vendor\<close> and \<open>Team\<close> to the displayed set
  although neither is a key of the node map; the following \<open>updateGraph\<close> throws and
  the error panel is shown. \<open>initializeGraph\<close> with depth 0 and the URL parameter
  \<open>node=Vendor\<close> displays \<open>Vendor\<close> in the same way.
\<close>

theorem loadSchema_displays_unknown_nodes:
  "displayedNodes (loadSchema exampleSchema ''Document'' 1 linkQueryState)
     = [''Document'', ''Package'', ''Vendor'', ''Team'']
   \<and> map fst (nodes (loadSchema exampleSchema ''Document'' 1 linkQueryState))
     = [''Document'', ''Package'', ''PackageLink'']
   \<and> \<not> renders (loadSchema exampleSchema ''Document'' 1 linkQueryState)
   \<and> sidebarContent (page (loadSchema exampleSchema ''Document'' 1 linkQueryState)) = ErrorState
   \<and> displayedNodes (initializeGraph 0 None nodeQueryState) = [''Vendor'']
   \<and> map fst (nodes (initializeGraph 0 None nodeQueryState))
     = [''Document'', ''Package'', ''PackageLink'']"
  by code_simp

section \<open>Search ranking\<close>

lemma localeCompare_Nil: "localeCompare w [] z \<le> 0"
  by (cases z) simp_all

lemma localeCompare_Nil_right: "localeCompare w z [] \<le> 0 \<longleftrightarrow> z = []"
  by (cases z) simp_all

lemma localeCompare_Cons:
  "localeCompare w (a # x) (b # y) \<le> 0 \<longleftrightarrow>
     w a < w b \<or> (w a = w b \<and> localeCompare w x y \<le> 0)"
  by auto

lemma localeCompare_total: "localeCompare w x y \<le> 0 \<or> localeCompare w y x \<le> 0"
  by (induction w x y rule: localeCompare.induct) auto

lemma localeCompare_trans:
  "localeCompare w x y \<le> 0 \<Longrightarrow> localeCompare w y z \<le> 0 \<Longrightarrow> localeCompare w x z \<le> 0"
proof (induction x arbitrary: y z)
  case Nil
  show ?case by (rule localeCompare_Nil)
next
  case (Cons a x)
  from Cons.prems(1) obtain b ys where y: "y = b # ys"
    by (cases y) simp_all
  from Cons.prems(2) y obtain c cs where z: "z = c # cs"
    by (cases z) simp_all
  from Cons.prems(1) have ab: "w a < w b \<or> (w a = w b \<and> localeCompare w x ys \<le> 0)"
    unfolding y localeCompare_Cons .
  from Cons.prems(2) have bc: "w b < w c \<or> (w b = w c \<and> localeCompare w ys cs \<le> 0)"
    unfolding y z localeCompare_Cons .
  have ih: "localeCompare w x ys \<le> 0 \<Longrightarrow> localeCompare w ys cs \<le> 0 \<Longrightarrow> localeCompare w x cs \<le> 0"
    by (rule Cons.IH)
  from ab bc ih have "w a < w c \<or> (w a = w c \<and> localeCompare w x cs \<le> 0)"
    by linarith
  then show ?case
    unfolding z localeCompare_Cons .
qed

lemma localeCompare_antisym:
  "inj w \<Longrightarrow> localeCompare w x y \<le> 0 \<Longrightarrow> localeCompare w y x \<le> 0 \<Longrightarrow> x = y"
proof (induction x arbitrary: y)
  case Nil
  then show ?case by (simp add: localeCompare_Nil_right)
next
  case (Cons a x)
  from Cons.prems(2) obtain b ys where y: "y = b # ys"
    by (cases y) simp_all
  from Cons.prems(2) have ab: "w a < w b \<or> (w a = w b \<and> localeCompare w x ys \<le> 0)"
    unfolding y localeCompare_Cons .
  from Cons.prems(3) have ba: "w b < w a \<or> (w b = w a \<and> localeCompare w ys x \<le> 0)"
    unfolding y localeCompare_Cons .
  from ab ba have eq: "w a = w b" and l: "localeCompare w x ys \<le> 0" and r: "localeCompare w ys x \<le> 0"
    by linarith+
  from eq Cons.prems(1) have "a = b"
    by (simp add: inj_eq)
  moreover from Cons.IH [OF Cons.prems(1) l r] have "x = ys" .
  ultimately show ?case by (simp add: y)
qed

text \<open>The comparison of the code is the lexicographic order of the list library.\<close>

lemma localeCompare_lexicographic:
  "localeCompare w x y \<le> 0 \<longleftrightarrow> lexicographicLe w x y"
proof (induction x arbitrary: y)
  case Nil
  show ?case by (cases y) (simp_all add: lexicographicLe_def)
next
  case (Cons a x)
  show ?case
  proof (cases y)
    case Nil
    then show ?thesis by (simp add: lexicographicLe_def)
  next
    case (Cons b ys)
    have "lexicographicLe w (a # x) (b # ys)
        \<longleftrightarrow> w a < w b \<or> (w a = w b \<and> lexicographicLe w x ys)"
      by (auto simp: lexicographicLe_def)
    with Cons.IH [of ys] show ?thesis
      unfolding Cons localeCompare_Cons by simp
  qed
qed

lemma compareResults_rankedBefore:
  "compareResults w query a b \<le> 0 \<longleftrightarrow> rankedBefore w query a b"
  by (auto simp: compareResults_def rankedBefore_def Let_def localeCompare_lexicographic [symmetric])

lemma rankedBefore_total:
  "rankedBefore w query a b \<or> rankedBefore w query b a"
  using localeCompare_total [of w "toLowerCase (res_name a)" "toLowerCase (res_name b)"]
  unfolding rankedBefore_def Let_def localeCompare_lexicographic [symmetric]
  by (metis linorder_less_linear)

lemma rankedBefore_trans:
  assumes "rankedBefore w query a b"
    and "rankedBefore w query b c"
  shows "rankedBefore w query a c"
proof -
  have t: "localeCompare w x y \<le> 0 \<Longrightarrow> localeCompare w y z \<le> 0 \<Longrightarrow> localeCompare w x z \<le> 0"
    for x y z
    by (rule localeCompare_trans)
  from assms show ?thesis
    unfolding rankedBefore_def Let_def localeCompare_lexicographic [symmetric]
    by (elim disjE conjE) (auto intro: t)
qed

lemma typeWeight_inj: "typeWeight s = typeWeight t \<Longrightarrow> s = t"
  by (cases s; cases t) (simp_all add: typeWeight_def)

lemma rankedBefore_antisym:
  assumes "inj w"
    and "rankedBefore w query a b"
    and "rankedBefore w query b a"
  shows "res_type a = res_type b \<and> toLowerCase (res_name a) = toLowerCase (res_name b)"
proof -
  from assms(2,3) have "typeWeight (res_type a) = typeWeight (res_type b)"
    and "localeCompare w (toLowerCase (res_name a)) (toLowerCase (res_name b)) \<le> 0"
    and "localeCompare w (toLowerCase (res_name b)) (toLowerCase (res_name a)) \<le> 0"
    unfolding rankedBefore_def Let_def localeCompare_lexicographic [symmetric]
    by auto
  then show ?thesis
    using localeCompare_antisym [OF assms(1)] typeWeight_inj by blast
qed

lemma set_insertBy: "set (insertBy cmp x ys) = insert x (set ys)"
  by (induction ys) auto

lemma mset_insertBy: "mset (insertBy cmp x ys) = add_mset x (mset ys)"
  by (induction ys) auto

lemma mset_sortBy: "mset (sortBy cmp xs) = mset xs"
  by (induction xs) (simp_all add: sortBy_def mset_insertBy)

lemma length_sortBy: "length (sortBy cmp xs) = length xs"
  using mset_sortBy [of cmp xs] by (metis size_mset)

lemma sorted_insertBy:
  assumes total: "\<And>a b. cmp a b \<le> 0 \<or> cmp b a \<le> (0::int)"
    and trans: "\<And>a b c. cmp a b \<le> 0 \<Longrightarrow> cmp b c \<le> 0 \<Longrightarrow> cmp a c \<le> 0"
  shows "sorted_wrt (\<lambda>a b. cmp a b \<le> 0) ys \<Longrightarrow> sorted_wrt (\<lambda>a b. cmp a b \<le> 0) (insertBy cmp x ys)"
proof (induction ys)
  case Nil
  then show ?case by simp
next
  case (Cons y ys)
  show ?case
  proof (cases "cmp x y \<le> 0")
    case True
    with Cons.prems show ?thesis
      by (auto intro: trans)
  next
    case False
    with total [of x y] have "cmp y x \<le> 0" by simp
    with False Cons show ?thesis
      by (auto simp: set_insertBy)
  qed
qed

lemma sorted_sortBy:
  assumes "\<And>a b. cmp a b \<le> 0 \<or> cmp b a \<le> (0::int)"
    and "\<And>a b c. cmp a b \<le> 0 \<Longrightarrow> cmp b c \<le> 0 \<Longrightarrow> cmp a c \<le> 0"
  shows "sorted_wrt (\<lambda>a b. cmp a b \<le> 0) (sortBy cmp xs)"
proof (induction xs)
  case Nil
  then show ?case by (simp add: sortBy_def)
next
  case (Cons x xs)
  have "sortBy cmp (x # xs) = insertBy cmp x (sortBy cmp xs)"
    by (simp add: sortBy_def)
  with Cons sorted_insertBy [of cmp "sortBy cmp xs" x, OF assms] show ?case
    by simp
qed

lemma sorted_results:
  "sorted_wrt (rankedBefore w query) (sortBy (compareResults w query) xs)"
proof -
  have "sorted_wrt (\<lambda>a b. compareResults w query a b \<le> 0) (sortBy (compareResults w query) xs)"
  proof (rule sorted_sortBy)
    show "compareResults w query a b \<le> 0 \<or> compareResults w query b a \<le> 0" for a b
      using rankedBefore_total by (simp add: compareResults_rankedBefore)
    show "compareResults w query a b \<le> 0 \<Longrightarrow> compareResults w query b c \<le> 0 \<Longrightarrow>
          compareResults w query a c \<le> 0" for a b c
      using rankedBefore_trans by (simp add: compareResults_rankedBefore)
  qed
  then show ?thesis
    by (simp add: compareResults_rankedBefore)
qed

lemma sorted_wrt_take_drop:
  "sorted_wrt P xs \<Longrightarrow> r \<in> set (take n xs) \<Longrightarrow> m \<in> set (drop n xs) \<Longrightarrow> P r m"
proof -
  assume "sorted_wrt P xs"
  then have "sorted_wrt P (take n xs @ drop n xs)" by simp
  then show "r \<in> set (take n xs) \<Longrightarrow> m \<in> set (drop n xs) \<Longrightarrow> P r m"
    unfolding sorted_wrt_append by blast
qed

lemma inj_codeUnits: "inj codeUnits"
  by (simp add: inj_def codeUnits_def)

text \<open>
  Claim C9. Take a collation that gives different characters different weights, a node
  map of plain text and any query (those of length at least 2 among them). Then
  \<open>performSearch\<close> returns exactly the first 50 entries (all of them when there are
  fewer) of a rearrangement of all matches that is ordered by the ranking of the
  specification: type weight, then prefix matches of the match-relevant part first,
  then the shorter name, then the lexicographic order of the lowercased names. So the
  result is ordered by that ranking, and a match that is left out is ranked after every
  result. The ranking is strict up to results of the same type with the same
  lowercased name. In the example schema the query \<open>pack\<close> ranks \<open>Package\<close> above
  \<open>PackageLink\<close>, ahead of the matching relations, whatever the collation.
\<close>

theorem performSearch_ranked:
  assumes "inj collation" and "plainNodes (nodes s)"
  shows "length (performSearch collation query s)
        = min 50 (length (searchMatches query (nodes s)))
    \<and> (\<exists>ranked. mset ranked = mset (searchMatches query (nodes s))
          \<and> sorted_wrt (rankedBefore collation query) ranked
          \<and> performSearch collation query s = take 50 ranked)
    \<and> sorted_wrt (rankedBefore collation query) (performSearch collation query s)
    \<and> (m \<in> set (searchMatches query (nodes s))
         \<and> m \<notin> set (performSearch collation query s)
         \<and> r \<in> set (performSearch collation query s)
         \<longrightarrow> rankedBefore collation query r m)
    \<and> (rankedBefore collation query a b \<and> rankedBefore collation query b a
         \<longrightarrow> res_type a = res_type b \<and> toLowerCase (res_name a) = toLowerCase (res_name b))
    \<and> map res_id (performSearch collation ''pack'' parsedState)
        = [''Package'', ''PackageLink'', ''Package-packageLinks'', ''Document-packages'',
           ''Package-partOfPackage'']"
proof -
  define ranked where "ranked = sortBy (compareResults collation query) (searchMatches query (nodes s))"
  have ps: "performSearch collation query s = take 50 ranked"
    by (simp add: performSearch_def ranked_def)
  have srt: "sorted_wrt (rankedBefore collation query) ranked"
    unfolding ranked_def by (rule sorted_results)
  have ms: "mset ranked = mset (searchMatches query (nodes s))"
    by (simp add: ranked_def mset_sortBy)
  have st: "set ranked = set (searchMatches query (nodes s))"
    using ms by (metis set_mset_mset)
  have a: "length (performSearch collation query s)
        = min 50 (length (searchMatches query (nodes s)))"
    by (simp add: ps ranked_def length_sortBy min.commute)
  have b: "sorted_wrt (rankedBefore collation query) (performSearch collation query s)"
    unfolding ps using srt by (rule sorted_wrt_take)
  have d: "rankedBefore collation query r m"
    if "m \<in> set (searchMatches query (nodes s))"
      "m \<notin> set (performSearch collation query s)"
      "r \<in> set (performSearch collation query s)"
  proof -
    have "set ranked = set (take 50 ranked) \<union> set (drop 50 ranked)"
      by (metis append_take_drop_id set_append)
    with that(1,2) have "m \<in> set (drop 50 ranked)"
      by (auto simp: ps st [symmetric])
    with srt that(3) show ?thesis
      unfolding ps by (rule sorted_wrt_take_drop)
  qed
  have e: "res_type a = res_type b \<and> toLowerCase (res_name a) = toLowerCase (res_name b)"
    if "rankedBefore collation query a b" "rankedBefore collation query b a"
    using assms(1) that by (rule rankedBefore_antisym)
  have f: "map res_id (performSearch collation ''pack'' parsedState)
        = [''Package'', ''PackageLink'', ''Package-packageLinks'', ''Document-packages'',
           ''Package-partOfPackage'']"
    by code_simp
  from ms srt ps have c: "\<exists>ranked. mset ranked = mset (searchMatches query (nodes s))
          \<and> sorted_wrt (rankedBefore collation query) ranked
          \<and> performSearch collation query s = take 50 ranked"
    by blast
  from a b c d e f show ?thesis by blast
qed

text \<open>
  With 52 matching definitions of equal name length the two that are last in the
  lexicographic order are left out, and the first result is ranked before the last
  match. With the definitions \<open>Packet\<close> and \<open>Packer\<close> the first three keys tie and the
  lexicographic order puts \<open>Packer\<close> first.
\<close>

theorem performSearch_ranked_witness:
  "inj codeUnits
   \<and> plainNodes (nodes manyState)
   \<and> length (searchMatches ''pk'' (nodes manyState)) = 52
   \<and> length (performSearch codeUnits ''pk'' manyState) = 50
   \<and> sorted_wrt (rankedBefore codeUnits ''pk'') (performSearch codeUnits ''pk'' manyState)
   \<and> last (searchMatches ''pk'' (nodes manyState)) \<in> set (searchMatches ''pk'' (nodes manyState))
   \<and> last (searchMatches ''pk'' (nodes manyState)) \<notin> set (performSearch codeUnits ''pk'' manyState)
   \<and> hd (performSearch codeUnits ''pk'' manyState) \<in> set (performSearch codeUnits ''pk'' manyState)
   \<and> rankedBefore codeUnits ''pk'' (hd (performSearch codeUnits ''pk'' manyState))
        (last (searchMatches ''pk'' (nodes manyState)))
   \<and> map res_name (searchMatches ''pack'' (nodes packetState)) = [''Packet'', ''Packer'']
   \<and> map res_name (performSearch codeUnits ''pack'' packetState) = [''Packer'', ''Packet'']"
proof -
  have plain: "plainNodes (nodes manyState)"
    by code_simp
  have n: "length (searchMatches ''pk'' (nodes manyState)) = 52"
    by code_simp
  have h2: "last (searchMatches ''pk'' (nodes manyState)) \<notin> set (performSearch codeUnits ''pk'' manyState)"
    by code_simp
  have p1: "map res_name (searchMatches ''pack'' (nodes packetState)) = [''Packet'', ''Packer'']"
    by code_simp
  have p2: "map res_name (performSearch codeUnits ''pack'' packetState) = [''Packer'', ''Packet'']"
    by code_simp
  note spec = performSearch_ranked [OF inj_codeUnits plain, of "''pk''"
      "last (searchMatches ''pk'' (nodes manyState))"
      "hd (performSearch codeUnits ''pk'' manyState)"]
  from spec n have len: "length (performSearch codeUnits ''pk'' manyState) = 50"
    by simp
  from n have "searchMatches ''pk'' (nodes manyState) \<noteq> []"
    by auto
  then have h1: "last (searchMatches ''pk'' (nodes manyState)) \<in> set (searchMatches ''pk'' (nodes manyState))"
    by (rule last_in_set)
  from len have "performSearch codeUnits ''pk'' manyState \<noteq> []"
    by auto
  then have h3: "hd (performSearch codeUnits ''pk'' manyState) \<in> set (performSearch codeUnits ''pk'' manyState)"
    by (rule hd_in_set)
  from spec h1 h2 h3 have top: "rankedBefore codeUnits ''pk''
      (hd (performSearch codeUnits ''pk'' manyState))
      (last (searchMatches ''pk'' (nodes manyState)))"
    by blast
  from spec have srt: "sorted_wrt (rankedBefore codeUnits ''pk'') (performSearch codeUnits ''pk'' manyState)"
    by blast
  from inj_codeUnits plain n len srt h1 h2 h3 top p1 p2 show ?thesis
    by blast
qed

end
